theory Spec2Isabelle
  imports Main "HOL-Library.Multiset"
begin

section \<open>Data model\<close>

text \<open>
  A facet membership is the dictionary
  \<^verbatim>\<open>{'language': language, 'spoken_language_code': ..., 'since': ...}\<close>
  that \<^verbatim>\<open>gathering.main\<close> appends to a repository's \<^verbatim>\<open>published\<close> list.
\<close>

record membership =
  language :: string
  spoken_language_code :: string
  since :: string

text \<open>
  One scraped listing, as \<^verbatim>\<open>get_github_trending_repositories_async\<close> builds it
  (seven keys, no \<^verbatim>\<open>published\<close> key yet). The integers are Python's unbounded ints.
\<close>

record repo =
  repository_name :: string
  repository_url :: string
  description :: string
  language :: string
  star :: int
  fork :: int
  date_range_stars :: int

text \<open>
  The same dictionary once \<^verbatim>\<open>published\<close> has been assigned: the shape of every
  element of a per-run JSON file and of the cumulative files.
\<close>

record entity = repo +
  published :: "membership list"

text \<open>
  The dictionary \<^verbatim>\<open>output\<close> of both \<^verbatim>\<open>main\<close> functions, keyed by
  \<^verbatim>\<open>repository_name\<close>. Python dictionaries keep insertion order and
  \<^verbatim>\<open>list(output.values())\<close> is what gets written, so the model is an association list in
  insertion order.
\<close>

type_synonym store = "(string \<times> entity) list"

definition dict_keys :: "store \<Rightarrow> string list" where
  "dict_keys output = map fst output"

definition dict_values :: "store \<Rightarrow> entity list" where
  "dict_values output = map snd output"

text \<open>\<^verbatim>\<open>output[k]['published'].extend(ms)\<close>: the entry stored under \<open>k\<close> is mutated in place.\<close>

definition published_extend :: "store \<Rightarrow> string \<Rightarrow> membership list \<Rightarrow> store" where
  "published_extend output k ms =
     map (\<lambda>(k', e). if k' = k then (k', e\<lparr>published := published e @ ms\<rparr>) else (k', e)) output"

text \<open>\<^verbatim>\<open>output[k]['published'].append(m)\<close>.\<close>

definition published_append :: "store \<Rightarrow> string \<Rightarrow> membership \<Rightarrow> store" where
  "published_append output k m = published_extend output k [m]"

section \<open>The aggregation loop of \<^verbatim>\<open>gathering.main\<close>\<close>

definition facet :: "string \<Rightarrow> string \<Rightarrow> string \<Rightarrow> membership" where
  "facet lang slc snc = \<lparr>membership.language = lang, spoken_language_code = slc, since = snc\<rparr>"

text \<open>
  The body of \<^verbatim>\<open>for repo in result\<close> (gathering.py, lines 213 to 217): a name already in
  \<^verbatim>\<open>output\<close> gets one more membership; a new name stores \<^verbatim>\<open>repo\<close> itself and gives
  it a one-element \<^verbatim>\<open>published\<close> list.
\<close>

definition first_seen :: "string \<Rightarrow> string \<Rightarrow> string \<Rightarrow> repo \<Rightarrow> entity" where
  "first_seen snc slc lang r = repo.extend r (entity.fields [facet lang slc snc])"

definition add_repo :: "string \<Rightarrow> string \<Rightarrow> string \<Rightarrow> store \<Rightarrow> repo \<Rightarrow> store" where
  "add_repo snc slc lang output r =
     (if repository_name r \<in> set (dict_keys output)
      then published_append output (repository_name r) (facet lang slc snc)
      else output @ [(repository_name r, first_seen snc slc lang r)])"

text \<open>
  One turn of \<^verbatim>\<open>for result, language in zip(results, languages)\<close> (lines 209 to 219) on the
  pair of accumulators \<^verbatim>\<open>(output, langs)\<close>: an empty result is skipped by
  \<^verbatim>\<open>continue\<close>, so it adds nothing to either.
\<close>

definition aggregate_step ::
  "string \<Rightarrow> string \<Rightarrow> store \<times> string list \<Rightarrow> repo list \<times> string \<Rightarrow> store \<times> string list" where
  "aggregate_step snc slc acc p =
     (case acc of (output, langs) \<Rightarrow>
      case p of (result, lang) \<Rightarrow>
        if length result = 0 then (output, langs)
        else (foldl (add_repo snc slc lang) output result,
              if lang \<noteq> ''all'' then langs @ [lang] else langs))"

definition aggregate ::
  "string \<Rightarrow> string \<Rightarrow> repo list list \<Rightarrow> string list \<Rightarrow> store \<times> string list" where
  "aggregate snc slc results languages =
     foldl (aggregate_step snc slc) ([], []) (zip results languages)"

section \<open>The merge loop of \<^verbatim>\<open>organize.main\<close>\<close>

text \<open>
  The body of \<^verbatim>\<open>for repo in load_dict(file_path)\<close> (organize.py, lines 38 to 41). Here
  \<^verbatim>\<open>repo\<close> is an element of a snapshot and carries its own \<^verbatim>\<open>published\<close> list.
\<close>

definition merge_repo :: "store \<Rightarrow> entity \<Rightarrow> store" where
  "merge_repo output r =
     (if repository_name r \<in> set (dict_keys output)
      then published_extend output (repository_name r) (published r)
      else output @ [(repository_name r, r)])"

text \<open>The outer loop over the loaded snapshot files, starting from the empty dictionary.\<close>

definition merge_files :: "entity list list \<Rightarrow> store" where
  "merge_files snapshots = foldl (\<lambda>output file. foldl merge_repo output file) [] snapshots"

section \<open>Files\<close>

text \<open>
  The exceptions the two programs can meet. The first three are subclasses of
  \<^verbatim>\<open>OSError\<close>, which is what \<^verbatim>\<open>except IOError\<close> catches; the others are not.
\<close>

datatype exn = FileNotFoundError | IsADirectoryError | PermissionError
  | JSONDecodeError | KeyError | TypeError | AttributeError | ValueError

fun is_IOError :: "exn \<Rightarrow> bool" where
  "is_IOError FileNotFoundError = True"
| "is_IOError IsADirectoryError = True"
| "is_IOError PermissionError = True"
| "is_IOError JSONDecodeError = False"
| "is_IOError KeyError = False"
| "is_IOError TypeError = False"
| "is_IOError AttributeError = False"
| "is_IOError ValueError = False"

text \<open>
  What \<^verbatim>\<open>except (AttributeError, ValueError)\<close> catches: the two classes and their
  subclasses, of which \<^verbatim>\<open>json.JSONDecodeError\<close> is one.
\<close>

fun is_AttributeError_or_ValueError :: "exn \<Rightarrow> bool" where
  "is_AttributeError_or_ValueError AttributeError = True"
| "is_AttributeError_or_ValueError ValueError = True"
| "is_AttributeError_or_ValueError JSONDecodeError = True"
| "is_AttributeError_or_ValueError FileNotFoundError = False"
| "is_AttributeError_or_ValueError IsADirectoryError = False"
| "is_AttributeError_or_ValueError PermissionError = False"
| "is_AttributeError_or_ValueError KeyError = False"
| "is_AttributeError_or_ValueError TypeError = False"

text \<open>
  The part of the file system the programs touch: the text of each file, the directories
  that exist, and the paths on which \<^verbatim>\<open>open\<close> is refused. Paths are relative to the
  working directory, and a leading \<^verbatim>\<open>./\<close> names the same file.
\<close>

record fsys =
  files :: "string \<Rightarrow> string option"
  dirs :: "string set"
  locked :: "string set"

definition resolve :: "string \<Rightarrow> string" where
  "resolve p = (if take 2 p = ''./'' then drop 2 p else p)"

text \<open>\<^verbatim>\<open>os.path.dirname\<close> of \<^verbatim>\<open>posixpath\<close>.\<close>

definition dirname :: "string \<Rightarrow> string" where
  "dirname p =
     (let head = rev (dropWhile (\<lambda>c. c \<noteq> CHR ''/'') (rev p))
      in if head \<noteq> [] \<and> head \<noteq> replicate (length head) CHR ''/''
         then rev (dropWhile (\<lambda>c. c = CHR ''/'') (rev head))
         else head)"

text \<open>\<^verbatim>\<open>os.path.exists\<close>.\<close>

definition path_exists :: "fsys \<Rightarrow> string \<Rightarrow> bool" where
  "path_exists fs p = (files fs (resolve p) \<noteq> None \<or> resolve p \<in> dirs fs)"

definition parent_exists :: "fsys \<Rightarrow> string \<Rightarrow> bool" where
  "parent_exists fs p =
     (dirname p = [] \<or> resolve (dirname p) = ''.'' \<or> resolve (dirname p) \<in> dirs fs)"

text \<open>\<^verbatim>\<open>os.mkdir\<close>, called only on a path that does not exist, directly under the working directory.\<close>

definition mkdir :: "fsys \<Rightarrow> string \<Rightarrow> fsys" where
  "mkdir fs d = fs\<lparr>dirs := insert (resolve d) (dirs fs)\<rparr>"

text \<open>\<^verbatim>\<open>open(path, 'w')\<close>: the exception it raises, if any.\<close>

definition open_w :: "fsys \<Rightarrow> string \<Rightarrow> exn option" where
  "open_w fs p =
     (if \<not> parent_exists fs p then Some FileNotFoundError
      else if resolve p \<in> dirs fs then Some IsADirectoryError
      else if resolve p \<in> locked fs then Some PermissionError
      else None)"

text \<open>\<^verbatim>\<open>open(path, 'r')\<close> followed by reading the whole text.\<close>

definition open_r :: "fsys \<Rightarrow> string \<Rightarrow> exn + string" where
  "open_r fs p =
     (if resolve p \<in> dirs fs then Inl IsADirectoryError
      else case files fs (resolve p) of
             None \<Rightarrow> Inl FileNotFoundError
           | Some t \<Rightarrow> if resolve p \<in> locked fs then Inl PermissionError else Inr t)"

text \<open>The file is created or truncated, and holds the text written.\<close>

definition write_text :: "fsys \<Rightarrow> string \<Rightarrow> string \<Rightarrow> fsys" where
  "write_text fs p t = fs\<lparr>files := (files fs)(resolve p \<mapsto> t)\<rparr>"

text \<open>
  \<^verbatim>\<open>json.dump\<close> and \<^verbatim>\<open>json.load\<close> belong to the standard library; they are taken as
  parameters. \<open>loads\<close> answers with the exception the program dies of when the text is not
  a JSON list of repository objects.
\<close>

record codec =
  dumps :: "entity list \<Rightarrow> string"
  loads :: "string \<Rightarrow> exn + entity list"

text \<open>\<^verbatim>\<open>save_dict\<close> (the same in gathering.py and organize.py): nothing is caught.\<close>

definition save_dict :: "codec \<Rightarrow> fsys \<Rightarrow> string \<Rightarrow> entity list \<Rightarrow> exn + fsys" where
  "save_dict J fs path data =
     (case open_w fs path of
        Some e \<Rightarrow> Inl e
      | None \<Rightarrow> Inr (write_text fs path (dumps J data)))"

text \<open>\<^verbatim>\<open>load_dict\<close> of organize.py: nothing is caught.\<close>

definition load_dict :: "codec \<Rightarrow> fsys \<Rightarrow> string \<Rightarrow> exn + entity list" where
  "load_dict J fs path =
     (case open_r fs path of
        Inl e \<Rightarrow> Inl e
      | Inr t \<Rightarrow> loads J t)"

text \<open>
  \<^verbatim>\<open>save_list\<close>: the \<^verbatim>\<open>try\<close> block returns \<^verbatim>\<open>True\<close>, the handler of
  \<^verbatim>\<open>IOError\<close> returns \<^verbatim>\<open>False\<close>. The result is the value returned or the exception
  that escapes, with the file system after the call.
\<close>

definition save_list :: "fsys \<Rightarrow> string \<Rightarrow> string list \<Rightarrow> (exn + bool) \<times> fsys" where
  "save_list fs filepath data =
     (case open_w fs filepath of
        Some e \<Rightarrow> (if is_IOError e then Inr False else Inl e, fs)
      | None \<Rightarrow>
          (Inr True, write_text fs filepath (concat (map (\<lambda>item. item @ [CHR 0x0A]) data))))"

text \<open>
  Reading in text mode translates \<^verbatim>\<open>\r\n\<close> and \<^verbatim>\<open>\r\<close> to \<^verbatim>\<open>\n\<close>;
  \<^verbatim>\<open>readlines\<close> cuts after every \<^verbatim>\<open>\n\<close> and keeps it.
\<close>

fun universal_newlines :: "string \<Rightarrow> string" where
  "universal_newlines [] = []"
| "universal_newlines [c] = [if c = CHR 0x0D then CHR 0x0A else c]"
| "universal_newlines (c # d # cs) =
     (if c = CHR 0x0D \<and> d = CHR 0x0A then CHR 0x0A # universal_newlines cs
      else if c = CHR 0x0D then CHR 0x0A # universal_newlines (d # cs)
      else c # universal_newlines (d # cs))"

fun split_lines :: "string \<Rightarrow> string \<Rightarrow> string list" where
  "split_lines cur [] = (if cur = [] then [] else [rev cur])"
| "split_lines cur (c # cs) =
     (if c = CHR 0x0A then rev (c # cur) # split_lines [] cs else split_lines (c # cur) cs)"

definition readlines :: "string \<Rightarrow> string list" where
  "readlines t = split_lines [] (universal_newlines t)"

text \<open>\<^verbatim>\<open>str.strip()\<close> on ASCII text.\<close>

definition is_space :: "char \<Rightarrow> bool" where
  "is_space c \<longleftrightarrow>
     c \<in> set [CHR 0x09, CHR 0x0A, CHR 0x0B, CHR 0x0C, CHR 0x0D,
              CHR 0x1C, CHR 0x1D, CHR 0x1E, CHR 0x1F, CHR 0x20]"

definition strip :: "string \<Rightarrow> string" where
  "strip t = rev (dropWhile is_space (rev (dropWhile is_space t)))"

text \<open>
  \<^verbatim>\<open>load_list\<close>: \<^verbatim>\<open>None\<close> when the path does not exist and when the handler of
  \<^verbatim>\<open>IOError\<close> runs.
\<close>

definition load_list :: "fsys \<Rightarrow> string \<Rightarrow> exn + string list option" where
  "load_list fs filepath =
     (if \<not> path_exists fs filepath then Inr None
      else case open_r fs filepath of
             Inl e \<Rightarrow> if is_IOError e then Inr None else Inl e
           | Inr t \<Rightarrow> Inr (Some (map strip (readlines t))))"

section \<open>Fetching\<close>

text \<open>
  What \<^verbatim>\<open>session.get\<close> with \<^verbatim>\<open>raise_for_status\<close> and \<^verbatim>\<open>response.text()\<close> comes to for
  one URL: the page, or one of the exceptions of the \<^verbatim>\<open>try\<close> block (a transport error,
  a status that is not a success, the 10 second timeout).
\<close>

datatype response = Body string | ClientError | BadStatus nat | TimeoutError

fun failed :: "response \<Rightarrow> bool" where
  "failed (Body html) = False"
| "failed ClientError = True"
| "failed (BadStatus code) = True"
| "failed TimeoutError = True"

text \<open>
  Everything outside the program: the remote site, the markup library and what
  \<^verbatim>\<open>get_trending_languages\<close> comes to: the list it scrapes (empty when the request fails
  or the menu is not found) or the exception it raises (\<^verbatim>\<open>lang_link['href']\<close> of line 47
  stands in no handler). Of the markup library the task of one page uses two things: \<^verbatim>\<open>BeautifulSoup(html, 'html.parser')\<close> with \<^verbatim>\<open>find_all\<close>, which
  gives the \<^verbatim>\<open>article\<close> elements of a page, and the calls of lines 99 to 125 that read
  one listing out of an element. Either may raise: \<^verbatim>\<open>find\<close> answers \<^verbatim>\<open>None\<close> for a
  missing element, on which \<^verbatim>\<open>.find\<close> and \<^verbatim>\<open>.text\<close> raise \<^verbatim>\<open>AttributeError\<close>;
  \<^verbatim>\<open>int\<close> raises \<^verbatim>\<open>ValueError\<close>; \<^verbatim>\<open>repo_link_tag['href']\<close> raises \<^verbatim>\<open>KeyError\<close> on an
  anchor without that attribute.
\<close>

record world =
  respond :: "string \<Rightarrow> response"
  find_articles :: "string \<Rightarrow> exn + string list"
  parse_article :: "string \<Rightarrow> exn + repo"
  trending_languages :: "exn + string list"

text \<open>
  The loop over \<^verbatim>\<open>repo_articles\<close> (lines 97 to 128), with the list \<^verbatim>\<open>trending_repos\<close>
  built so far. The handler of line 126 skips an article on \<^verbatim>\<open>AttributeError\<close> or
  \<^verbatim>\<open>ValueError\<close>; any other exception leaves the loop and the function.
\<close>

fun parse_articles :: "world \<Rightarrow> repo list \<Rightarrow> string list \<Rightarrow> exn + repo list" where
  "parse_articles w trending_repos [] = Inr trending_repos"
| "parse_articles w trending_repos (article # rest) =
     (case parse_article w article of
        Inr r \<Rightarrow> parse_articles w (trending_repos @ [r]) rest
      | Inl e \<Rightarrow>
          if is_AttributeError_or_ValueError e then parse_articles w trending_repos rest
          else Inl e)"

text \<open>Lines 90 to 130, the part of the function after the \<^verbatim>\<open>async with\<close> block.\<close>

definition parse_page :: "world \<Rightarrow> string \<Rightarrow> exn + repo list" where
  "parse_page w html =
     (case find_articles w html of
        Inl e \<Rightarrow> Inl e
      | Inr repo_articles \<Rightarrow> parse_articles w [] repo_articles)"

text \<open>
  What one task comes to: the value it returns (\<^verbatim>\<open>[]\<close> from the handler of line 82, the
  parsed listings otherwise) or the exception it raises.
\<close>

definition get_github_trending_repositories_async :: "world \<Rightarrow> string \<Rightarrow> exn + repo list" where
  "get_github_trending_repositories_async w url =
     (case respond w url of
        Body html \<Rightarrow> parse_page w html
      | ClientError \<Rightarrow> Inr []
      | BadStatus code \<Rightarrow> Inr []
      | TimeoutError \<Rightarrow> Inr [])"

section \<open>The tasks under the semaphore\<close>

text \<open>
  Where one task of \<^verbatim>\<open>get_github_trending_repositories_async\<close> stands: waiting to enter
  \<^verbatim>\<open>async with semaphore\<close>; inside it, awaiting the response; inside it, in
  \<^verbatim>\<open>asyncio.sleep(1)\<close>; past the block, parsing the page; returned; ended by an exception.
\<close>

datatype phase = Waiting | Fetching | Cooling string | Parsing string | Done "repo list"
  | Raised exn

fun holds_slot :: "phase \<Rightarrow> bool" where
  "holds_slot Waiting = False"
| "holds_slot Fetching = True"
| "holds_slot (Cooling html) = True"
| "holds_slot (Parsing html) = False"
| "holds_slot (Done result) = False"
| "holds_slot (Raised e) = False"

text \<open>
  The semaphore's counter, the tasks, one per URL, and the exception set on the future of
  \<^verbatim>\<open>asyncio.gather\<close>: that of the first task that raised, if any has.
\<close>

record batch =
  permits :: nat
  tasks :: "phase list"
  failure :: "exn option"

text \<open>\<^verbatim>\<open>asyncio.Semaphore(5)\<close> and the list of tasks of line 202.\<close>

definition start :: "string list \<Rightarrow> batch" where
  "start urls = \<lparr>permits = 5, tasks = map (\<lambda>url. Waiting) urls, failure = None\<rparr>"

text \<open>
  The next move of task \<open>i\<close>, when the event loop runs it. A waiting task enters only if a
  permit is left. The handler's \<^verbatim>\<open>return []\<close> leaves the \<^verbatim>\<open>async with\<close> block, which
  gives the permit back; so does the end of the block after the pause. A task that raises
  while parsing ends; \<^verbatim>\<open>asyncio.gather\<close> keeps the first exception it is given and lets
  the other tasks go on.
\<close>

definition advance :: "world \<Rightarrow> string list \<Rightarrow> batch \<Rightarrow> nat \<Rightarrow> batch" where
  "advance w urls s i =
     (if length (tasks s) \<le> i then s
      else case tasks s ! i of
             Waiting \<Rightarrow>
               if 0 < permits s
               then s\<lparr>permits := permits s - 1, tasks := (tasks s)[i := Fetching]\<rparr>
               else s
           | Fetching \<Rightarrow>
               (case respond w (urls ! i) of
                  Body html \<Rightarrow> s\<lparr>tasks := (tasks s)[i := Cooling html]\<rparr>
                | ClientError \<Rightarrow> s\<lparr>permits := permits s + 1, tasks := (tasks s)[i := Done []]\<rparr>
                | BadStatus code \<Rightarrow> s\<lparr>permits := permits s + 1, tasks := (tasks s)[i := Done []]\<rparr>
                | TimeoutError \<Rightarrow> s\<lparr>permits := permits s + 1, tasks := (tasks s)[i := Done []]\<rparr>)
           | Cooling html \<Rightarrow> s\<lparr>permits := permits s + 1, tasks := (tasks s)[i := Parsing html]\<rparr>
           | Parsing html \<Rightarrow>
               (case parse_page w html of
                  Inr trending_repos \<Rightarrow> s\<lparr>tasks := (tasks s)[i := Done trending_repos]\<rparr>
                | Inl e \<Rightarrow>
                    s\<lparr>tasks := (tasks s)[i := Raised e],
                      failure := (case failure s of None \<Rightarrow> Some e | Some first \<Rightarrow> Some first)\<rparr>)
           | Done result \<Rightarrow> s
           | Raised e \<Rightarrow> s)"

text \<open>
  The batch after the event loop has run the tasks in the order \<open>schedule\<close>. Once a task has
  raised, \<^verbatim>\<open>main\<close> ends with that exception and \<^verbatim>\<open>asyncio.run\<close> cancels the tasks that
  are left: the batch is over, and that shutdown is not described here. A schedule that goes
  on after that moment gives the tasks steps that they do not all get to take.
\<close>

definition run :: "world \<Rightarrow> string list \<Rightarrow> nat list \<Rightarrow> batch" where
  "run w urls schedule = foldl (advance w urls) (start urls) schedule"

text \<open>The number of network retrievals in flight, and of permits taken.\<close>

definition in_flight :: "batch \<Rightarrow> nat" where
  "in_flight s = length (filter (\<lambda>p. p = Fetching) (tasks s))"

definition slots_held :: "batch \<Rightarrow> nat" where
  "slots_held s = length (filter holds_slot (tasks s))"

text \<open>The values of the tasks, in the order of the tasks, once all of them have returned.\<close>

fun results_of :: "phase list \<Rightarrow> repo list list option" where
  "results_of [] = Some []"
| "results_of (p # rest) =
     (case p of
        Done result \<Rightarrow> map_option ((#) result) (results_of rest)
      | _ \<Rightarrow> None)"

text \<open>
  \<^verbatim>\<open>await asyncio.gather(*tasks)\<close> of line 204, when the event loop runs the tasks in the
  order \<open>schedule\<close>: the exception of the first task that raised, which \<^verbatim>\<open>gather\<close> raises
  again in \<^verbatim>\<open>main\<close>; or the list of the values of the tasks, in the order of the tasks, when
  all have returned; or nothing yet, \<^verbatim>\<open>main\<close> being still waiting.
\<close>

definition gather :: "world \<Rightarrow> string list \<Rightarrow> nat list \<Rightarrow> (exn + repo list list) option" where
  "gather w urls schedule =
     (let s = run w urls schedule
      in case failure s of
           Some e \<Rightarrow> Some (Inl e)
         | None \<Rightarrow> map_option Inr (results_of (tasks s)))"

section \<open>\<^verbatim>\<open>gathering.main\<close>\<close>

text \<open>Lines 189 to 192. \<^verbatim>\<open>load_list\<close> may answer \<^verbatim>\<open>None\<close>.\<close>

definition select_languages :: "world \<Rightarrow> fsys \<Rightarrow> string \<Rightarrow> string \<Rightarrow> exn + string list option" where
  "select_languages w fs snc slc =
     (if snc = ''daily'' \<and> slc = ''all''
      then case trending_languages w of
             Inl e \<Rightarrow> Inl e
           | Inr scraped \<Rightarrow> Inr (Some (''all'' # scraped))
      else load_list fs ''./temp/lang_list.txt'')"

text \<open>Lines 194 to 197.\<close>

definition make_urls :: "string \<Rightarrow> string \<Rightarrow> string list \<Rightarrow> string list" where
  "make_urls snc slc languages =
     (if slc = ''all''
      then [''https://github.com/trending?since='' @ snc] @
           map (\<lambda>i. ''https://github.com/trending/'' @ i @ ''?since='' @ snc)
             (filter (\<lambda>i. i \<noteq> ''all'') languages)
      else [''https://github.com/trending?since='' @ snc] @
           map (\<lambda>i. ''https://github.com/trending/'' @ i @ ''?since='' @ snc @
                     ''&spoken_language_code='' @ slc)
             (filter (\<lambda>i. i \<noteq> ''all'') languages))"

text \<open>Lines 207 to 225: what \<^verbatim>\<open>main\<close> does with the list that \<^verbatim>\<open>gather\<close> returned.\<close>

definition aggregate_and_save ::
  "codec \<Rightarrow> fsys \<Rightarrow> string \<Rightarrow> string \<Rightarrow> string list \<Rightarrow> repo list list \<Rightarrow> exn + fsys" where
  "aggregate_and_save J fs snc slc languages results =
     (let output_file = ''./temp/'' @ snc @ ''-'' @ slc @ ''.json'';
          output_lang_file = ''./temp/lang_list.txt'';
          (output, langs) = aggregate snc slc results languages;
          fs1 = (if \<not> path_exists fs (dirname output_file)
                 then mkdir fs (dirname output_file) else fs)
      in case save_dict J fs1 output_file (dict_values output) of
           Inl e \<Rightarrow> Inl e
         | Inr fs2 \<Rightarrow>
             (case save_list fs2 output_lang_file langs of
                (Inl e, fs3) \<Rightarrow> Inl e
              | (Inr ok, fs3) \<Rightarrow> Inr fs3))"

text \<open>
  The whole of \<^verbatim>\<open>main\<close>, when the event loop runs the tasks in the order \<open>schedule\<close>: the
  exception \<^verbatim>\<open>main\<close> ends with or the file system it leaves, and \<open>None\<close> when the schedule
  ends with \<^verbatim>\<open>main\<close> still waiting for the tasks. Iterating over \<^verbatim>\<open>None\<close> raises
  \<^verbatim>\<open>TypeError\<close>; the value \<^verbatim>\<open>save_list\<close> returns is dropped.
\<close>

definition gathering_main ::
  "codec \<Rightarrow> world \<Rightarrow> fsys \<Rightarrow> string \<Rightarrow> string \<Rightarrow> nat list \<Rightarrow> (exn + fsys) option" where
  "gathering_main J w fs snc slc schedule =
     (case select_languages w fs snc slc of
        Inl e \<Rightarrow> Some (Inl e)
      | Inr None \<Rightarrow> Some (Inl TypeError)
      | Inr (Some languages) \<Rightarrow>
          (case gather w (make_urls snc slc languages) schedule of
             None \<Rightarrow> None
           | Some (Inl e) \<Rightarrow> Some (Inl e)
           | Some (Inr results) \<Rightarrow> Some (aggregate_and_save J fs snc slc languages results)))"

section \<open>\<^verbatim>\<open>organize.main\<close>\<close>









section \<open>Sample data\<close>

definition sample_repo :: "string \<Rightarrow> int \<Rightarrow> repo" where
  "sample_repo name delta =
     \<lparr>repository_name = name, repository_url = ''https://github.com/'' @ name,
      description = ''No description provided.'', language = ''N/A'',
      star = 10, fork = 2, date_range_stars = delta\<rparr>"

definition sample_entity :: "string \<Rightarrow> int \<Rightarrow> membership list \<Rightarrow> entity" where
  "sample_entity name delta ms = repo.extend (sample_repo name delta) (entity.fields ms)"

text \<open>An entry of a per-run snapshot that was seen under two facets.\<close>

definition sample_entry :: entity where
  "sample_entry =
     sample_entity ''o/a'' 5 [facet ''all'' ''all'' ''daily'', facet ''python'' ''all'' ''daily'']"

text \<open>A per-run snapshot with two repositories.\<close>

definition sample_snapshot :: "entity list" where
  "sample_snapshot = [sample_entry, sample_entity ''o/b'' 7 [facet ''rust'' ''all'' ''daily'']]"



text \<open>
  A site whose weekly pages list one repository on the unfiltered page, none on the Python
  page and one on the Rust page; every other URL answers 404.
\<close>

definition sample_world :: world where
  "sample_world =
     \<lparr>respond = (\<lambda>url.
         if url = ''https://github.com/trending?since=weekly'' then Body ''o/a''
         else if url = ''https://github.com/trending/python?since=weekly'' then Body []
         else if url = ''https://github.com/trending/rust?since=weekly'' then Body ''o/r''
         else BadStatus 404),
      find_articles = (\<lambda>html. Inr (if html = [] then [] else [html])),
      parse_article = (\<lambda>article. Inr (sample_repo article 1)),
      trending_languages = Inr []\<rparr>"

text \<open>
  The same site, but the article of the Rust page has an anchor without \<^verbatim>\<open>href\<close>, so that
  line 101 raises \<^verbatim>\<open>KeyError\<close>.
\<close>

definition href_missing_world :: world where
  "href_missing_world =
     sample_world\<lparr>parse_article :=
       (\<lambda>article. if article = ''o/r'' then Inl KeyError else Inr (sample_repo article 1))\<rparr>"

text \<open>A working directory whose cached facet list holds \<^verbatim>\<open>python\<close> and \<^verbatim>\<open>rust\<close>.\<close>

definition sample_fs :: fsys where
  "sample_fs =
     \<lparr>files = [''temp/lang_list.txt'' \<mapsto> ''python'' @ [CHR 0x0A] @ ''rust'' @ [CHR 0x0A]],
      dirs = {''temp''}, locked = {}\<rparr>"

definition sample_codec :: codec where
  "sample_codec =
     \<lparr>dumps = (\<lambda>data. ''json''),
      loads = (\<lambda>t. if t = ''snapshot'' then Inr sample_snapshot else Inl JSONDecodeError)\<rparr>"

text \<open>The same directory with its two files of that run made unopenable.\<close>

definition locked_fs :: fsys where
  "locked_fs = sample_fs\<lparr>locked := {''temp/lang_list.txt'', ''temp/weekly-all.json''}\<rparr>"



section \<open>Auxiliary notions for the statements\<close>

text \<open>
  Every record the aggregation loop meets, in processing order, each already carrying the
  one-element \<^verbatim>\<open>published\<close> list of the facet it was met under.
\<close>

definition tagged :: "string \<Rightarrow> string \<Rightarrow> (repo list \<times> string) list \<Rightarrow> entity list" where
  "tagged snc slc ps = concat (map (\<lambda>(result, lang). map (first_seen snc slc lang) result) ps)"

text \<open>The phase of a task that has come to its end.\<close>

fun settle :: "exn + repo list \<Rightarrow> phase" where
  "settle (Inr result) = Done result"
| "settle (Inl e) = Raised e"

text \<open>The first exception in a list of outcomes, and how one more outcome extends it.\<close>

fun first_error :: "(exn + 'a) list \<Rightarrow> exn option" where
  "first_error [] = None"
| "first_error (Inl e # rest) = Some e"
| "first_error (Inr x # rest) = first_error rest"

fun keep_first :: "exn option \<Rightarrow> exn + 'a \<Rightarrow> exn option" where
  "keep_first None (Inl e) = Some e"
| "keep_first (Some first) (Inl e) = Some first"
| "keep_first f (Inr x) = f"

text \<open>
  What holds of every task at every moment of a batch: its phase fits the answer to its URL,
  and a task that has come to its end carries what the function comes to for that URL. The
  exception kept for \<^verbatim>\<open>main\<close> is that of a task that raised, and there is one as soon as
  a task has raised.
\<close>

fun raised :: "phase \<Rightarrow> bool" where
  "raised (Raised e) = True"
| "raised Waiting = False"
| "raised Fetching = False"
| "raised (Cooling html) = False"
| "raised (Parsing html) = False"
| "raised (Done result) = False"

fun failure_fits :: "exn option \<Rightarrow> phase list \<Rightarrow> bool" where
  "failure_fits None ps = (\<forall>p\<in>set ps. \<not> raised p)"
| "failure_fits (Some e) ps = (Raised e \<in> set ps)"

fun phase_fits :: "world \<Rightarrow> string \<Rightarrow> phase \<Rightarrow> bool" where
  "phase_fits w url Waiting = True"
| "phase_fits w url Fetching = True"
| "phase_fits w url (Cooling html) = (respond w url = Body html)"
| "phase_fits w url (Parsing html) = (respond w url = Body html)"
| "phase_fits w url (Done result) = (get_github_trending_repositories_async w url = Inr result)"
| "phase_fits w url (Raised e) = (get_github_trending_repositories_async w url = Inl e)"

definition batch_ok :: "world \<Rightarrow> string list \<Rightarrow> batch \<Rightarrow> bool" where
  "batch_ok w urls s \<longleftrightarrow>
     length (tasks s) = length urls \<and>
     permits s + slots_held s = 5 \<and>
     list_all2 (phase_fits w) urls (tasks s) \<and>
     failure_fits (failure s) (tasks s)"

text \<open>Six URLs, one more than the semaphore admits.\<close>

definition six_urls :: "string list" where
  "six_urls = replicate 6 ''https://github.com/trending?since=weekly''"

text \<open>The schedule that runs each of the first \<open>k\<close> tasks four times in a row, one after another.\<close>

definition one_by_one :: "nat \<Rightarrow> nat list" where
  "one_by_one k = concat (map (\<lambda>i. [i, i, i, i]) [0..<k])"

section \<open>Properties of the two folds\<close>

lemma map_of_published_extend:
  "map_of (published_extend out k ms) k' =
     (if k' = k then map_option (\<lambda>e. e\<lparr>published := published e @ ms\<rparr>) (map_of out k)
      else map_of out k')"
  by (induction out) (auto simp: published_extend_def)

lemma dict_keys_published_extend [simp]:
  "dict_keys (published_extend out k ms) = dict_keys out"
  by (induction out) (auto simp: published_extend_def dict_keys_def)

lemma in_dict_keys_iff: "k \<in> set (dict_keys out) \<longleftrightarrow> map_of out k \<noteq> None"
  by (simp add: dict_keys_def map_of_eq_None_iff)

lemma map_of_merge_repo:
  "map_of (merge_repo out r) k =
     (if k = repository_name r
      then (case map_of out k of
              Some e \<Rightarrow> Some (e\<lparr>published := published e @ published r\<rparr>)
            | None \<Rightarrow> Some r)
      else map_of out k)"
  by (auto simp: merge_repo_def map_of_published_extend in_dict_keys_iff map_add_def
           split: option.splits)

lemma dict_keys_snoc [simp]: "dict_keys (out @ [(k, e)]) = dict_keys out @ [k]"
  by (simp add: dict_keys_def)

lemma dict_keys_merge_repo:
  "set (dict_keys (merge_repo out r)) = insert (repository_name r) (set (dict_keys out))"
  by (auto simp: merge_repo_def)

lemma distinct_merge_repo:
  "distinct (dict_keys out) \<Longrightarrow> distinct (dict_keys (merge_repo out r))"
  by (simp add: merge_repo_def)

text \<open>
  What a run of the merge loop leaves under a key: the entry that was there, or else the
  first record of that name, with the \<^verbatim>\<open>published\<close> lists of all later records of that
  name appended in the order they were met.
\<close>

lemma map_of_foldl_merge_repo:
  "map_of (foldl merge_repo out rs) k =
     (case map_of out k of
        Some e \<Rightarrow>
          Some (e\<lparr>published := published e @ concat (map published [r\<leftarrow>rs. repository_name r = k])\<rparr>)
      | None \<Rightarrow>
          (case [r\<leftarrow>rs. repository_name r = k] of
             [] \<Rightarrow> None
           | r # rest \<Rightarrow> Some (r\<lparr>published := published r @ concat (map published rest)\<rparr>)))"
proof (induction rs arbitrary: out)
  case Nil
  show ?case by (simp split: option.splits)
next
  case (Cons a rs)
  show ?case
    by (simp add: Cons.IH map_of_merge_repo split: option.splits list.splits)
qed

lemma dict_keys_foldl_merge_repo:
  "set (dict_keys (foldl merge_repo out rs)) = set (dict_keys out) \<union> repository_name ` set rs"
  by (induction rs arbitrary: out) (auto simp: dict_keys_merge_repo)

lemma distinct_foldl_merge_repo:
  "distinct (dict_keys out) \<Longrightarrow> distinct (dict_keys (foldl merge_repo out rs))"
  by (induction rs arbitrary: out) (auto simp: distinct_merge_repo)

lemma foldl_foldl_concat: "foldl (\<lambda>acc xs. foldl f acc xs) a xss = foldl f a (concat xss)"
  by (induction xss arbitrary: a) auto

lemma merge_files_concat: "merge_files snapshots = foldl merge_repo [] (concat snapshots)"
  by (simp add: merge_files_def foldl_foldl_concat)

lemma map_of_merge_files:
  "map_of (merge_files snapshots) k =
     (case [r\<leftarrow>concat snapshots. repository_name r = k] of
        [] \<Rightarrow> None
      | r # rest \<Rightarrow> Some (r\<lparr>published := concat (map published (r # rest))\<rparr>))"
  by (simp add: merge_files_concat map_of_foldl_merge_repo split: list.splits)

lemma dict_keys_foldl_merge_repo_known:
  "repository_name ` set rs \<subseteq> set (dict_keys out) \<Longrightarrow>
   dict_keys (foldl merge_repo out rs) = dict_keys out"
proof (induction rs arbitrary: out)
  case Nil
  show ?case by simp
next
  case (Cons a rs)
  from Cons.prems have a: "repository_name a \<in> set (dict_keys out)" by simp
  then have k: "dict_keys (merge_repo out a) = dict_keys out"
    by (simp add: merge_repo_def)
  with Cons.prems have "repository_name ` set rs \<subseteq> set (dict_keys (merge_repo out a))"
    by simp
  from Cons.IH [OF this] k show ?case by simp
qed

lemma sample_entry_simps:
  "repository_name sample_entry = ''o/a''"
  "published sample_entry = [facet ''all'' ''all'' ''daily'', facet ''python'' ''all'' ''daily'']"
  by (simp_all add: sample_entry_def sample_entity_def sample_repo_def repo.extend_def
        entity.fields_def)

lemma sample_snapshot_merged: "map_of (merge_files [sample_snapshot]) ''o/a'' = Some sample_entry"
proof -
  have "repository_name (sample_entity ''o/b'' 7 [facet ''rust'' ''all'' ''daily'']) = ''o/b''"
    by (simp add: sample_entity_def sample_repo_def repo.extend_def)
  then show ?thesis
    by (simp add: map_of_merge_files sample_snapshot_def sample_entry_simps)
qed

subsection \<open>Merging a snapshot with itself\<close>

text \<open>
  C3. The merge is not content-idempotent. For every snapshot \<open>A\<close>, merging \<open>[A, A]\<close> gives
  the same keys as merging \<open>[A]\<close> (in the same order), and under every key an entry with the
  same scalar fields whose \<^verbatim>\<open>published\<close> list is exactly twice as long: nothing is
  deduplicated.
\<close>

theorem merge_twice_doubles_membership:
  "dict_keys (merge_files [A, A]) = dict_keys (merge_files [A]) \<and>
   (\<forall>k e. map_of (merge_files [A]) k = Some e \<longrightarrow>
      (\<exists>e'. map_of (merge_files [A, A]) k = Some e' \<and>
            repo.truncate e' = repo.truncate e \<and>
            length (published e') = 2 * length (published e)))"
proof
  have "repository_name ` set A \<subseteq> set (dict_keys (foldl merge_repo [] A))"
    by (simp add: dict_keys_foldl_merge_repo)
  then show "dict_keys (merge_files [A, A]) = dict_keys (merge_files [A])"
    by (simp add: merge_files_def dict_keys_foldl_merge_repo_known)
next
  show "\<forall>k e. map_of (merge_files [A]) k = Some e \<longrightarrow>
      (\<exists>e'. map_of (merge_files [A, A]) k = Some e' \<and>
            repo.truncate e' = repo.truncate e \<and>
            length (published e') = 2 * length (published e))"
  proof (intro allI impI)
    fix k e
    assume h: "map_of (merge_files [A]) k = Some e"
    show "\<exists>e'. map_of (merge_files [A, A]) k = Some e' \<and>
            repo.truncate e' = repo.truncate e \<and>
            length (published e') = 2 * length (published e)"
    proof (cases "[r\<leftarrow>A. repository_name r = k]")
      case Nil
      with h show ?thesis by (simp add: map_of_merge_files)
    next
      case (Cons r rest)
      with h have e: "e = r\<lparr>published := concat (map published (r # rest))\<rparr>"
        by (simp add: map_of_merge_files)
      from Cons have "map_of (merge_files [A, A]) k =
          Some (r\<lparr>published := concat (map published ((r # rest) @ (r # rest)))\<rparr>)"
        by (simp add: map_of_merge_files)
      with e show ?thesis by (simp add: repo.truncate_def)
    qed
  qed
qed

theorem merge_twice_doubles_membership_witness:
  "map_of (merge_files [sample_snapshot]) ''o/a'' = Some sample_entry \<and>
   (\<exists>e'. map_of (merge_files [sample_snapshot, sample_snapshot]) ''o/a'' = Some e' \<and>
         repo.truncate e' = repo.truncate sample_entry \<and>
         length (published e') = 4)"
proof -
  from merge_twice_doubles_membership [of sample_snapshot] sample_snapshot_merged
  obtain e' where "map_of (merge_files [sample_snapshot, sample_snapshot]) ''o/a'' = Some e'"
    and "repo.truncate e' = repo.truncate sample_entry"
    and "length (published e') = 2 * length (published sample_entry)"
    by blast
  with sample_snapshot_merged show ?thesis by (simp add: sample_entry_simps)
qed

subsection \<open>The aggregation loop as an instance of the merge loop\<close>

lemma first_seen_simps [simp]:
  "repository_name (first_seen snc slc lang r) = repository_name r"
  "published (first_seen snc slc lang r) = [facet lang slc snc]"
  "repo.truncate (first_seen snc slc lang r) = r"
  by (simp_all add: first_seen_def repo.extend_def entity.fields_def repo.truncate_def)

lemma add_repo_merge_repo:
  "add_repo snc slc lang out r = merge_repo out (first_seen snc slc lang r)"
  by (simp add: add_repo_def merge_repo_def published_append_def)

lemma foldl_add_repo:
  "foldl (add_repo snc slc lang) out rs = foldl merge_repo out (map (first_seen snc slc lang) rs)"
  by (induction rs arbitrary: out) (simp_all add: add_repo_merge_repo)

lemma fst_foldl_aggregate_step:
  "fst (foldl (aggregate_step snc slc) (out, langs) ps) = foldl merge_repo out (tagged snc slc ps)"
proof (induction ps arbitrary: out langs)
  case Nil
  show ?case by (simp add: tagged_def)
next
  case (Cons p ps)
  obtain result lang where p: "p = (result, lang)" by (cases p)
  have step: "aggregate_step snc slc (out, langs) p =
      (foldl merge_repo out (map (first_seen snc slc lang) result),
       if result = [] \<or> lang = ''all'' then langs else langs @ [lang])"
    by (simp add: aggregate_step_def p foldl_add_repo)
  have "tagged snc slc (p # ps) = map (first_seen snc slc lang) result @ tagged snc slc ps"
    by (simp add: tagged_def p)
  then show ?case by (simp add: step Cons.IH)
qed

lemma snd_foldl_aggregate_step:
  "snd (foldl (aggregate_step snc slc) (out, langs) ps) =
     langs @ map snd [p\<leftarrow>ps. fst p \<noteq> [] \<and> snd p \<noteq> ''all'']"
proof (induction ps arbitrary: out langs)
  case Nil
  show ?case by simp
next
  case (Cons p ps)
  obtain result lang where p: "p = (result, lang)" by (cases p)
  have step: "aggregate_step snc slc (out, langs) p =
      (foldl (add_repo snc slc lang) out result,
       if result = [] \<or> lang = ''all'' then langs else langs @ [lang])"
    by (simp add: aggregate_step_def p)
  show ?case by (simp add: step Cons.IH) (simp add: p)
qed

lemma fst_aggregate:
  "fst (aggregate snc slc results languages) =
     foldl merge_repo [] (tagged snc slc (zip results languages))"
  by (simp add: aggregate_def fst_foldl_aggregate_step)

lemma snd_aggregate:
  "snd (aggregate snc slc results languages) =
     map snd [p\<leftarrow>zip results languages. fst p \<noteq> [] \<and> snd p \<noteq> ''all'']"
  by (simp add: aggregate_def snd_foldl_aggregate_step)


lemma distinct_aggregate: "distinct (dict_keys (fst (aggregate snc slc results languages)))"
proof -
  have "distinct (dict_keys [])" by (simp add: dict_keys_def)
  then show ?thesis by (simp only: fst_aggregate distinct_foldl_merge_repo)
qed

lemma distinct_merge_files: "distinct (dict_keys (merge_files snapshots))"
proof -
  have "distinct (dict_keys [])" by (simp add: dict_keys_def)
  then show ?thesis by (simp only: merge_files_concat distinct_foldl_merge_repo)
qed

lemma merge_repo_absent:
  "repository_name x \<notin> set (dict_keys out) \<Longrightarrow> merge_repo out x = out @ [(repository_name x, x)]"
  by (simp add: merge_repo_def)

lemma merge_repo_present:
  "map_of out (repository_name x) = Some e \<Longrightarrow>
   dict_keys (merge_repo out x) = dict_keys out \<and>
   map_of (merge_repo out x) (repository_name x) =
     Some (e\<lparr>published := published e @ published x\<rparr>)"
  by (simp add: map_of_merge_repo) (simp add: merge_repo_def in_dict_keys_iff)

lemma merge_repo_other:
  "k \<noteq> repository_name x \<Longrightarrow> map_of (merge_repo out x) k = map_of out k"
  by (simp add: map_of_merge_repo)

subsection \<open>The fold rule\<close>

text \<open>
  C2, as amended. The aggregation loop of \<^verbatim>\<open>gathering.main\<close> inserts, for a record whose
  name is not yet a key, that record with a one-element \<^verbatim>\<open>published\<close> list holding the
  current facet triple, and for a name already present appends that one triple to the stored
  entry. The merge loop of \<^verbatim>\<open>organize.main\<close> applies the same rule to records that
  already carry a \<^verbatim>\<open>published\<close> list: a new name stores the snapshot record as it is,
  with its whole list, and a name already present gets the record's whole list appended. In
  both loops every other entry is untouched, the stored entry keeps the scalar fields it was
  first stored with, and the final dictionary has one entry per name.
\<close>

theorem fold_rule_of_both_loops:
  "(repository_name r \<notin> set (dict_keys out) \<longrightarrow>
      add_repo snc slc lang out r = out @ [(repository_name r, first_seen snc slc lang r)] \<and>
      repo.truncate (first_seen snc slc lang r) = r \<and>
      published (first_seen snc slc lang r) = [facet lang slc snc]) \<and>
   (\<forall>e. map_of out (repository_name r) = Some e \<longrightarrow>
      dict_keys (add_repo snc slc lang out r) = dict_keys out \<and>
      map_of (add_repo snc slc lang out r) (repository_name r) =
        Some (e\<lparr>published := published e @ [facet lang slc snc]\<rparr>)) \<and>
   (\<forall>k. k \<noteq> repository_name r \<longrightarrow> map_of (add_repo snc slc lang out r) k = map_of out k) \<and>
   (repository_name x \<notin> set (dict_keys out) \<longrightarrow>
      merge_repo out x = out @ [(repository_name x, x)]) \<and>
   (\<forall>e. map_of out (repository_name x) = Some e \<longrightarrow>
      dict_keys (merge_repo out x) = dict_keys out \<and>
      map_of (merge_repo out x) (repository_name x) =
        Some (e\<lparr>published := published e @ published x\<rparr>)) \<and>
   (\<forall>k. k \<noteq> repository_name x \<longrightarrow> map_of (merge_repo out x) k = map_of out k) \<and>
   distinct (dict_keys (fst (aggregate snc slc results languages))) \<and>
   distinct (dict_keys (merge_files snapshots))"
proof (intro conjI allI impI)
  assume "repository_name r \<notin> set (dict_keys out)"
  then show "add_repo snc slc lang out r = out @ [(repository_name r, first_seen snc slc lang r)]"
    by (simp add: add_repo_def)
next
  fix e assume e: "map_of out (repository_name r) = Some e"
  from merge_repo_present [of out "first_seen snc slc lang r" e] e
  show "dict_keys (add_repo snc slc lang out r) = dict_keys out"
    and "map_of (add_repo snc slc lang out r) (repository_name r) =
        Some (e\<lparr>published := published e @ [facet lang slc snc]\<rparr>)"
    by (simp_all add: add_repo_merge_repo)
next
  fix k assume "k \<noteq> repository_name r"
  then show "map_of (add_repo snc slc lang out r) k = map_of out k"
    by (simp add: add_repo_merge_repo merge_repo_other)
next
  assume "repository_name x \<notin> set (dict_keys out)"
  then show "merge_repo out x = out @ [(repository_name x, x)]"
    by (rule merge_repo_absent)
next
  fix e assume e: "map_of out (repository_name x) = Some e"
  from merge_repo_present [OF e]
  show "dict_keys (merge_repo out x) = dict_keys out"
    and "map_of (merge_repo out x) (repository_name x) =
        Some (e\<lparr>published := published e @ published x\<rparr>)"
    by simp_all
next
  fix k assume "k \<noteq> repository_name x"
  then show "map_of (merge_repo out x) k = map_of out k"
    by (rule merge_repo_other)
qed (simp_all add: distinct_aggregate distinct_merge_files)

theorem fold_rule_of_both_loops_witness:
  "add_repo ''daily'' ''all'' ''rust'' [] (sample_repo ''o/a'' 5) =
     [(''o/a'', first_seen ''daily'' ''all'' ''rust'' (sample_repo ''o/a'' 5))] \<and>
   merge_repo [] sample_entry = [(''o/a'', sample_entry)] \<and>
   map_of (add_repo ''daily'' ''all'' ''rust'' [(''o/a'', sample_entry)] (sample_repo ''o/a'' 6)) ''o/a'' =
     Some (sample_entry\<lparr>published := published sample_entry @ [facet ''rust'' ''all'' ''daily'']\<rparr>) \<and>
   map_of (merge_repo [(''o/a'', sample_entry)] sample_entry) ''o/a'' =
     Some (sample_entry\<lparr>published := published sample_entry @ published sample_entry\<rparr>) \<and>
   map_of (merge_repo [(''o/a'', sample_entry)] sample_entry) ''o/b'' = None"
proof -
  have n5: "repository_name (sample_repo ''o/a'' 5) = ''o/a''"
    and n6: "repository_name (sample_repo ''o/a'' 6) = ''o/a''"
    by (simp_all add: sample_repo_def)
  have absent_r: "repository_name (sample_repo ''o/a'' 5) \<notin> set (dict_keys [])"
    and absent_x: "repository_name sample_entry \<notin> set (dict_keys [])"
    by (simp_all add: dict_keys_def)
  have present_r:
    "map_of [(''o/a'', sample_entry)] (repository_name (sample_repo ''o/a'' 6)) = Some sample_entry"
    and present_x:
    "map_of [(''o/a'', sample_entry)] (repository_name sample_entry) = Some sample_entry"
    by (simp_all add: n6 sample_entry_simps)
  have other: "''o/b'' \<noteq> repository_name sample_entry"
    by (simp add: sample_entry_simps)
  note first = fold_rule_of_both_loops
    [where r = "sample_repo ''o/a'' 5" and out = "[]" and x = sample_entry
       and snc = "''daily''" and slc = "''all''" and lang = "''rust''"]
  note later = fold_rule_of_both_loops
    [where r = "sample_repo ''o/a'' 6" and out = "[(''o/a'', sample_entry)]" and x = sample_entry
       and snc = "''daily''" and slc = "''all''" and lang = "''rust''"]
  from first absent_r
  have 1: "add_repo ''daily'' ''all'' ''rust'' [] (sample_repo ''o/a'' 5) =
     [(''o/a'', first_seen ''daily'' ''all'' ''rust'' (sample_repo ''o/a'' 5))]"
    by (simp add: n5)
  from first absent_x
  have 2: "merge_repo [] sample_entry = [(''o/a'', sample_entry)]"
    by (simp add: sample_entry_simps)
  from later present_r
  have 3: "map_of (add_repo ''daily'' ''all'' ''rust'' [(''o/a'', sample_entry)] (sample_repo ''o/a'' 6))
       ''o/a'' =
     Some (sample_entry\<lparr>published := published sample_entry @ [facet ''rust'' ''all'' ''daily'']\<rparr>)"
    by (simp add: n6)
  from later present_x
  have 4: "map_of (merge_repo [(''o/a'', sample_entry)] sample_entry) ''o/a'' =
     Some (sample_entry\<lparr>published := published sample_entry @ published sample_entry\<rparr>)"
    by (simp add: sample_entry_simps)
  from later other
  have 5: "map_of (merge_repo [(''o/a'', sample_entry)] sample_entry) ''o/b'' = None"
    by simp
  from 1 2 3 4 5 show ?thesis by blast
qed

text \<open>
  C2 as stated fails for the merge loop: a snapshot record whose name is new is stored with
  the two memberships it brings, not with a one-element list.
\<close>

theorem merge_repo_singleton_counterexample:
  "repository_name sample_entry \<notin> set (dict_keys []) \<and>
   merge_repo [] sample_entry = [(''o/a'', sample_entry)] \<and>
   length (published (hd (dict_values (merge_repo [] sample_entry)))) = 2"
  by (simp add: merge_repo_def dict_keys_def dict_values_def sample_entry_simps)

subsection \<open>Processing the facets in another order\<close>





lemma truncate_published_update [simp]:
  "repo.truncate (x\<lparr>published := ms\<rparr>) = repo.truncate x"
  by (simp add: repo.truncate_def)




section \<open>The batch of tasks\<close>

lemma length_filter_update:
  "i < length xs \<Longrightarrow>
   length (filter P (xs[i := y])) + (if P (xs ! i) then 1 else 0) =
   length (filter P xs) + (if P y then 1 else 0)"
proof (induction xs arbitrary: i)
  case Nil
  then show ?case by simp
next
  case (Cons x xs)
  show ?case
  proof (cases i)
    case 0
    then show ?thesis by simp
  next
    case (Suc j)
    with Cons.prems have "j < length xs" by simp
    from Cons.IH [OF this] Suc show ?thesis by simp
  qed
qed

lemma slots_held_update:
  "i < length (tasks s) \<Longrightarrow>
   slots_held (s\<lparr>permits := n, tasks := (tasks s)[i := p]\<rparr>) + (if holds_slot (tasks s ! i) then 1 else 0) =
   slots_held s + (if holds_slot p then 1 else 0)"
  by (simp add: slots_held_def length_filter_update)

lemma slots_held_update':
  "i < length (tasks s) \<Longrightarrow>
   slots_held (s\<lparr>tasks := (tasks s)[i := p]\<rparr>) + (if holds_slot (tasks s ! i) then 1 else 0) =
   slots_held s + (if holds_slot p then 1 else 0)"
  by (simp add: slots_held_def length_filter_update)

lemma slots_held_update'':
  "i < length (tasks s) \<Longrightarrow>
   slots_held (s\<lparr>tasks := (tasks s)[i := p], failure := f\<rparr>) + (if holds_slot (tasks s ! i) then 1 else 0) =
   slots_held s + (if holds_slot p then 1 else 0)"
  by (simp add: slots_held_def length_filter_update)

lemma in_set_update_other: "x \<in> set xs \<Longrightarrow> xs ! i \<noteq> x \<Longrightarrow> x \<in> set (xs[i := y])"
proof -
  assume "x \<in> set xs" and other: "xs ! i \<noteq> x"
  then obtain j where j: "j < length xs" "xs ! j = x"
    by (auto simp: in_set_conv_nth)
  with other have "j \<noteq> i" by auto
  with j have "xs[i := y] ! j = x" by simp
  with j(1) show ?thesis
    by (metis length_list_update nth_mem)
qed

lemma in_set_update_old: "x \<in> set (xs[i := y]) \<Longrightarrow> x \<noteq> y \<Longrightarrow> x \<in> set xs"
  using set_update_subset_insert [of xs i y] by auto

text \<open>The exception kept for \<^verbatim>\<open>main\<close> stays what it is when no task raises in the step.\<close>

lemma failure_kept:
  assumes inv: "failure_fits f xs" and old: "\<not> raised (xs ! i)" and new: "\<not> raised p"
  shows "failure_fits f (xs[i := p])"
proof (cases f)
  case None
  with inv have "\<not> raised q" if "q \<in> set xs" for q
    using that by simp
  with new have "\<not> raised q" if "q \<in> set (xs[i := p])" for q
    using that in_set_update_old [of q xs i p] by auto
  with None show ?thesis by simp
next
  case (Some e)
  with inv have "Raised e \<in> set xs" by simp
  moreover from old have "xs ! i \<noteq> Raised e" by auto
  ultimately have "Raised e \<in> set (xs[i := p])"
    by (rule in_set_update_other)
  with Some show ?thesis by simp
qed

text \<open>And it is the first one when a task raises.\<close>

lemma failure_first:
  assumes inv: "failure_fits f xs" and i: "i < length xs" and old: "\<not> raised (xs ! i)"
  shows "failure_fits (case f of None \<Rightarrow> Some e | Some first \<Rightarrow> Some first) (xs[i := Raised e])"
proof (cases f)
  case None
  with i show ?thesis by (simp add: set_update_memI)
next
  case (Some first)
  with inv have "Raised first \<in> set xs" by simp
  moreover from old have "xs ! i \<noteq> Raised first" by auto
  ultimately have "Raised first \<in> set (xs[i := Raised e])"
    by (rule in_set_update_other)
  with Some show ?thesis by simp
qed

lemma batch_ok_start: "batch_ok w urls (start urls)"
proof -
  have "filter holds_slot (map (\<lambda>url. Waiting) urls) = []"
    by (induction urls) simp_all
  moreover have "list_all2 (phase_fits w) urls (map (\<lambda>url. Waiting) urls)"
    by (induction urls) simp_all
  moreover have "failure_fits None (map (\<lambda>url. Waiting) urls)"
    by auto
  ultimately show ?thesis
    by (simp add: batch_ok_def start_def slots_held_def)
qed

lemma batch_ok_advance:
  assumes ok: "batch_ok w urls s"
  shows "batch_ok w urls (advance w urls s i)"
proof (cases "i < length (tasks s)")
  case False
  with ok show ?thesis by (simp add: advance_def)
next
  case True
  from ok have len: "length (tasks s) = length urls"
    and sem: "permits s + slots_held s = 5"
    and fits: "list_all2 (phase_fits w) urls (tasks s)"
    and inv: "failure_fits (failure s) (tasks s)"
    by (simp_all add: batch_ok_def)
  from fits True len have fit_i: "phase_fits w (urls ! i) (tasks s ! i)"
    by (simp add: list_all2_nthD)
  have upd: "list_all2 (phase_fits w) urls ((tasks s)[i := p])" if "phase_fits w (urls ! i) p" for p
    using fits that True len by (simp add: list_all2_conv_all_nth nth_list_update)
  note kept = failure_kept [OF inv, of i]
  show ?thesis
  proof (cases "tasks s ! i")
    case Waiting
    show ?thesis
    proof (cases "0 < permits s")
      case False
      with Waiting True ok show ?thesis by (simp add: advance_def)
    next
      case pos: True
      from slots_held_update [OF True, where n = "permits s - 1" and p = Fetching] Waiting
      have "slots_held (s\<lparr>permits := permits s - 1, tasks := (tasks s)[i := Fetching]\<rparr>) =
            slots_held s + 1"
        by simp
      moreover from kept [of Fetching] Waiting
      have "failure_fits (failure s) ((tasks s)[i := Fetching])"
        by simp
      ultimately show ?thesis
        using pos sem Waiting True len upd [of Fetching]
        by (simp add: advance_def batch_ok_def)
    qed
  next
    case Fetching
    have gone: "batch_ok w urls (s\<lparr>permits := permits s + 1, tasks := (tasks s)[i := Done []]\<rparr>)"
      if "get_github_trending_repositories_async w (urls ! i) = Inr []"
    proof -
      from slots_held_update [OF True, where n = "permits s + 1" and p = "Done []"] Fetching
      have "slots_held (s\<lparr>permits := permits s + 1, tasks := (tasks s)[i := Done []]\<rparr>) + 1 =
            slots_held s"
        by simp
      moreover from kept [of "Done []"] Fetching
      have "failure_fits (failure s) ((tasks s)[i := Done []])"
        by simp
      ultimately show ?thesis
        using sem len that upd [of "Done []"] by (simp add: batch_ok_def)
    qed
    show ?thesis
    proof (cases "respond w (urls ! i)")
      case (Body html)
      from slots_held_update' [OF True, where p = "Cooling html"] Fetching
      have "slots_held (s\<lparr>tasks := (tasks s)[i := Cooling html]\<rparr>) = slots_held s"
        by simp
      moreover from kept [of "Cooling html"] Fetching
      have "failure_fits (failure s) ((tasks s)[i := Cooling html])"
        by simp
      ultimately show ?thesis
        using sem Fetching True len Body upd [of "Cooling html"]
        by (simp add: advance_def batch_ok_def)
    next
      case ClientError
      then have "get_github_trending_repositories_async w (urls ! i) = Inr []"
        by (simp add: get_github_trending_repositories_async_def)
      from gone [OF this] Fetching True ClientError show ?thesis
        by (simp add: advance_def)
    next
      case (BadStatus code)
      then have "get_github_trending_repositories_async w (urls ! i) = Inr []"
        by (simp add: get_github_trending_repositories_async_def)
      from gone [OF this] Fetching True BadStatus show ?thesis
        by (simp add: advance_def)
    next
      case TimeoutError
      then have "get_github_trending_repositories_async w (urls ! i) = Inr []"
        by (simp add: get_github_trending_repositories_async_def)
      from gone [OF this] Fetching True TimeoutError show ?thesis
        by (simp add: advance_def)
    qed
  next
    case (Cooling html)
    from slots_held_update [OF True, where n = "permits s + 1" and p = "Parsing html"] Cooling
    have "slots_held (s\<lparr>permits := permits s + 1, tasks := (tasks s)[i := Parsing html]\<rparr>) + 1 =
          slots_held s"
      by simp
    moreover from kept [of "Parsing html"] Cooling
    have "failure_fits (failure s) ((tasks s)[i := Parsing html])"
      by simp
    ultimately show ?thesis
      using sem Cooling True len fit_i upd [of "Parsing html"]
      by (simp add: advance_def batch_ok_def)
  next
    case (Parsing html)
    with fit_i have page: "get_github_trending_repositories_async w (urls ! i) = parse_page w html"
      by (simp add: get_github_trending_repositories_async_def)
    show ?thesis
    proof (cases "parse_page w html")
      case (Inr trending_repos)
      from slots_held_update' [OF True, where p = "Done trending_repos"] Parsing
      have "slots_held (s\<lparr>tasks := (tasks s)[i := Done trending_repos]\<rparr>) = slots_held s"
        by simp
      moreover from kept [of "Done trending_repos"] Parsing
      have "failure_fits (failure s) ((tasks s)[i := Done trending_repos])"
        by simp
      ultimately show ?thesis
        using sem Parsing True len page Inr upd [of "Done trending_repos"]
        by (simp add: advance_def batch_ok_def)
    next
      case (Inl e)
      let ?f = "case failure s of None \<Rightarrow> Some e | Some first \<Rightarrow> Some first"
      from slots_held_update'' [OF True, where p = "Raised e" and f = ?f] Parsing
      have "slots_held (s\<lparr>tasks := (tasks s)[i := Raised e], failure := ?f\<rparr>) = slots_held s"
        by simp
      moreover from failure_first [OF inv True, of e] Parsing
      have "failure_fits ?f ((tasks s)[i := Raised e])"
        by simp
      ultimately show ?thesis
        using sem Parsing True len page Inl upd [of "Raised e"]
        by (simp add: advance_def batch_ok_def)
    qed
  next
    case (Done result)
    with True ok show ?thesis by (simp add: advance_def)
  next
    case (Raised e)
    with True ok show ?thesis by (simp add: advance_def)
  qed
qed

lemma batch_ok_foldl:
  "batch_ok w urls s \<Longrightarrow> batch_ok w urls (foldl (advance w urls) s schedule)"
  by (induction schedule arbitrary: s) (simp_all add: batch_ok_advance)

lemma batch_ok_run: "batch_ok w urls (run w urls schedule)"
  by (simp add: run_def batch_ok_foldl batch_ok_start)

lemma in_flight_le_slots_held: "in_flight s \<le> slots_held s"
proof -
  have "length (filter (\<lambda>p. p = Fetching) ps) \<le> length (filter holds_slot ps)" for ps
    by (induction ps) auto
  then show ?thesis by (simp add: in_flight_def slots_held_def)
qed

subsection \<open>The concurrency ceiling\<close>

text \<open>
  C7. Whatever the URLs, the answers of the site and the order in which the event loop runs
  the tasks, at every moment the permits left and the permits taken add up to 5, so never
  more than 5 tasks are inside \<^verbatim>\<open>async with semaphore\<close> and never more than 5 retrievals
  are in flight. That covers every list of more than 5 targets.
\<close>

theorem at_most_five_in_flight:
  "in_flight (run w urls schedule) \<le> 5 \<and>
   slots_held (run w urls schedule) \<le> 5 \<and>
   permits (run w urls schedule) + slots_held (run w urls schedule) = 5"
proof -
  from batch_ok_run [of w urls schedule]
  have "permits (run w urls schedule) + slots_held (run w urls schedule) = 5"
    by (simp add: batch_ok_def)
  moreover from this have "slots_held (run w urls schedule) \<le> 5" by simp
  moreover from this in_flight_le_slots_held [of "run w urls schedule"]
  have "in_flight (run w urls schedule) \<le> 5" by simp
  ultimately show ?thesis by simp
qed

text \<open>The ceiling is reached: of six tasks, five fetch and the sixth keeps waiting.\<close>

lemma sixth_task_waits:
  "run sample_world six_urls [0, 1, 2, 3, 4, 5, 5] =
     \<lparr>permits = 0, tasks = [Fetching, Fetching, Fetching, Fetching, Fetching, Waiting],
      failure = None\<rparr>"
  by (simp add: run_def start_def advance_def six_urls_def numeral_eq_Suc)

subsection \<open>What the batch returns\<close>

lemma phase_of_task:
  assumes "j < length urls"
  shows "phase_fits w (urls ! j) (tasks (run w urls schedule) ! j)"
proof -
  from batch_ok_run [of w urls schedule]
  have "list_all2 (phase_fits w) urls (tasks (run w urls schedule))"
    by (simp add: batch_ok_def)
  with assms show ?thesis
    by (simp add: list_all2_nthD2 list_all2_lengthD)
qed

lemma returned_value:
  assumes "i < length urls" and "tasks (run w urls schedule) ! i = Done result"
  shows "get_github_trending_repositories_async w (urls ! i) = Inr result"
  using phase_of_task [OF assms(1), of w schedule] assms(2) by simp

lemma raised_value:
  assumes "i < length urls" and "tasks (run w urls schedule) ! i = Raised e"
  shows "get_github_trending_repositories_async w (urls ! i) = Inl e"
  using phase_of_task [OF assms(1), of w schedule] assms(2) by simp

lemma results_of_Some: "results_of ps = Some rs \<Longrightarrow> ps = map Done rs"
proof (induction ps arbitrary: rs)
  case Nil
  then show ?case by simp
next
  case (Cons p ps)
  then show ?case by (cases p) auto
qed

lemma results_of_settle:
  "first_error xs = None \<Longrightarrow> results_of (map settle xs) = Some (map projr xs)"
proof (induction xs)
  case Nil
  show ?case by simp
next
  case (Cons x xs)
  then show ?case by (cases x) simp_all
qed

lemma first_error_snoc: "first_error (xs @ [x]) = keep_first (first_error xs) x"
proof (induction xs)
  case Nil
  show ?case by (cases x) simp_all
next
  case (Cons y ys)
  then show ?case by (cases y; cases x) simp_all
qed

lemma first_error_None: "first_error xs = None \<longleftrightarrow> (\<forall>x\<in>set xs. \<forall>e. x \<noteq> Inl e)"
proof (induction xs)
  case Nil
  show ?case by simp
next
  case (Cons x xs)
  then show ?case by (cases x) auto
qed

lemma first_error_Some: "first_error xs = Some e \<Longrightarrow> Inl e \<in> set xs"
proof (induction xs)
  case Nil
  then show ?case by simp
next
  case (Cons x xs)
  then show ?case by (cases x) auto
qed

text \<open>
  When \<^verbatim>\<open>gather\<close> returns, its list has the value of each task at the place of the task,
  whatever the order in which the tasks ran.
\<close>

lemma gather_returns:
  assumes "gather w urls schedule = Some (Inr results)"
  shows "map Inr results = map (get_github_trending_repositories_async w) urls"
proof -
  let ?s = "run w urls schedule"
  from assms have "results_of (tasks ?s) = Some results"
    by (auto simp: gather_def Let_def split: option.splits)
  then have ts: "tasks ?s = map Done results"
    by (rule results_of_Some)
  from batch_ok_run [of w urls schedule] have len: "length (tasks ?s) = length urls"
    by (simp add: batch_ok_def)
  with ts have len': "length results = length urls" by simp
  show ?thesis
  proof (rule nth_equalityI)
    show "length (map Inr results) = length (map (get_github_trending_repositories_async w) urls)"
      using len' by simp
  next
    fix i assume "i < length (map Inr results)"
    with len' have i: "i < length urls" by simp
    with ts len' have "tasks ?s ! i = Done (results ! i)" by simp
    with i have "get_github_trending_repositories_async w (urls ! i) = Inr (results ! i)"
      by (rule returned_value)
    with i len' show "map Inr results ! i = map (get_github_trending_repositories_async w) urls ! i"
      by simp
  qed
qed

text \<open>When it raises, the exception is that of one of the tasks.\<close>

lemma gather_raises:
  assumes "gather w urls schedule = Some (Inl e)"
  shows "\<exists>i<length urls. get_github_trending_repositories_async w (urls ! i) = Inl e"
proof -
  let ?s = "run w urls schedule"
  from assms have "failure ?s = Some e"
    by (auto simp: gather_def Let_def split: option.splits)
  with batch_ok_run [of w urls schedule] have "Raised e \<in> set (tasks ?s)"
    and len: "length (tasks ?s) = length urls"
    by (simp_all add: batch_ok_def)
  then obtain i where i: "i < length urls" "tasks ?s ! i = Raised e"
    by (auto simp: in_set_conv_nth)
  then have "get_github_trending_repositories_async w (urls ! i) = Inl e"
    by (rule raised_value)
  with i(1) show ?thesis by blast
qed

text \<open>
  Run alone four times in a row, a waiting task comes to its end and gives its permit back.
\<close>

lemma four_turns:
  assumes i: "i < length (tasks s)" and w: "tasks s ! i = Waiting" and p: "0 < permits s"
  shows "foldl (advance w urls) s [i, i, i, i] =
         s\<lparr>tasks := (tasks s)[i := settle (get_github_trending_repositories_async w (urls ! i))],
           failure := keep_first (failure s) (get_github_trending_repositories_async w (urls ! i))\<rparr>"
proof -
  let ?s1 = "s\<lparr>permits := permits s - 1, tasks := (tasks s)[i := Fetching]\<rparr>"
  from i w p have 1: "advance w urls s i = ?s1"
    by (simp add: advance_def)
  from p have restore: "permits s - 1 + 1 = permits s" by simp
  have first: "(case f of None \<Rightarrow> Some e | Some first \<Rightarrow> Some first) = keep_first f (Inl e)"
    for f :: "exn option" and e
    by (cases f) simp_all
  show ?thesis
  proof (cases "respond w (urls ! i)")
    case (Body html)
    show ?thesis
    proof (cases "parse_page w html")
      case (Inl e)
      with Body i restore show ?thesis
        by (simp add: 1)
           (simp add: advance_def get_github_trending_repositories_async_def first)
    next
      case (Inr trending_repos)
      with Body i restore show ?thesis
        by (simp add: 1) (simp add: advance_def get_github_trending_repositories_async_def)
    qed
  next
    case ClientError
    with i restore show ?thesis
      by (simp add: 1) (simp add: advance_def get_github_trending_repositories_async_def)
  next
    case (BadStatus code)
    with i restore show ?thesis
      by (simp add: 1) (simp add: advance_def get_github_trending_repositories_async_def)
  next
    case TimeoutError
    with i restore show ?thesis
      by (simp add: 1) (simp add: advance_def get_github_trending_repositories_async_def)
  qed
qed

lemma one_after_another:
  "k \<le> length urls \<Longrightarrow>
   foldl (advance w urls) (start urls) (one_by_one k) =
     \<lparr>permits = 5,
      tasks = map (\<lambda>url. settle (get_github_trending_repositories_async w url)) (take k urls) @
              map (\<lambda>url. Waiting) (drop k urls),
      failure = first_error (map (get_github_trending_repositories_async w) (take k urls))\<rparr>"
proof (induction k)
  case 0
  show ?case by (simp add: one_by_one_def start_def)
next
  case (Suc k)
  let ?get = "get_github_trending_repositories_async w"
  let ?s = "\<lparr>permits = 5,
      tasks = map (\<lambda>url. settle (?get url)) (take k urls) @ map (\<lambda>url. Waiting) (drop k urls),
      failure = first_error (map ?get (take k urls))\<rparr>"
  from Suc.prems have k: "k < length urls" by simp
  then have IH: "foldl (advance w urls) (start urls) (one_by_one k) = ?s"
    using Suc.IH by simp
  have split: "one_by_one (Suc k) = one_by_one k @ [k, k, k, k]"
    by (simp add: one_by_one_def)
  from k have i: "k < length (tasks ?s)" by simp
  from k have wt: "tasks ?s ! k = Waiting"
    by (simp add: nth_append)
  from k have ts: "(map (\<lambda>url. settle (?get url)) (take k urls) @ map (\<lambda>url. Waiting) (drop k urls))
                 [k := settle (?get (urls ! k))] =
               map (\<lambda>url. settle (?get url)) (take (Suc k) urls) @
               map (\<lambda>url. Waiting) (drop (Suc k) urls)"
    by (simp add: list_update_append take_Suc_conv_app_nth Cons_nth_drop_Suc [symmetric])
  from k have fl: "keep_first (first_error (map ?get (take k urls))) (?get (urls ! k)) =
      first_error (map ?get (take (Suc k) urls))"
    by (simp add: take_Suc_conv_app_nth first_error_snoc)
  from four_turns [OF i wt, of w urls] ts fl show ?case
    by (simp add: split IH)
qed

text \<open>So the batch comes to its end: every task returns or raises.\<close>

lemma batch_completes:
  "run w urls (one_by_one (length urls)) =
     \<lparr>permits = 5,
      tasks = map (\<lambda>url. settle (get_github_trending_repositories_async w url)) urls,
      failure = first_error (map (get_github_trending_repositories_async w) urls)\<rparr>"
  by (simp add: run_def one_after_another)

lemma gather_one_by_one:
  "gather w urls (one_by_one (length urls)) =
     (case first_error (map (get_github_trending_repositories_async w) urls) of
        Some e \<Rightarrow> Some (Inl e)
      | None \<Rightarrow> Some (Inr (map (\<lambda>url. projr (get_github_trending_repositories_async w url)) urls)))"
proof (cases "first_error (map (get_github_trending_repositories_async w) urls)")
  case None
  from results_of_settle [OF this] None show ?thesis
    by (simp add: gather_def batch_completes o_def)
next
  case (Some e)
  then show ?thesis
    by (simp add: gather_def batch_completes)
qed

subsection \<open>Failures stay where they happen\<close>

lemma retrieval_failure_empty:
  "failed (respond w url) \<Longrightarrow> get_github_trending_repositories_async w url = Inr []"
  by (cases "respond w url") (simp_all add: get_github_trending_repositories_async_def)

text \<open>A task depends on the answer to its own URL and on the markup library, on nothing else.\<close>

lemma task_depends_on_own_target:
  assumes "respond w' url = respond w url" and "find_articles w' = find_articles w"
    and "parse_article w' = parse_article w"
  shows "get_github_trending_repositories_async w' url =
         get_github_trending_repositories_async w url"
proof -
  have "parse_articles w' acc as = parse_articles w acc as" for acc as
    using assms(3) by (induction as arbitrary: acc) (simp_all split: sum.splits)
  with assms(2) have "parse_page w' html = parse_page w html" for html
    by (simp add: parse_page_def split: sum.splits)
  with assms(1) show ?thesis
    by (simp add: get_github_trending_repositories_async_def split: response.splits)
qed

text \<open>
  The part of C1 that holds. When \<^verbatim>\<open>gather\<close> returns, the list has one entry per target,
  in the order of the targets, and \<^verbatim>\<open>[]\<close> at the place of every target whose retrieval
  failed.
\<close>

lemma gather_isolates_retrieval_failures:
  assumes "gather w urls schedule = Some (Inr results)"
  shows "length results = length urls"
    and "\<forall>i<length urls. get_github_trending_repositories_async w (urls ! i) = Inr (results ! i)"
    and "\<forall>i<length urls. failed (respond w (urls ! i)) \<longrightarrow> results ! i = []"
proof -
  from gather_returns [OF assms]
  have eq: "map Inr results = map (get_github_trending_repositories_async w) urls" .
  from arg_cong [OF eq, of length] show len: "length results = length urls"
    by simp
  show own: "\<forall>i<length urls.
      get_github_trending_repositories_async w (urls ! i) = Inr (results ! i)"
  proof (intro allI impI)
    fix i assume i: "i < length urls"
    from arg_cong [OF eq, of "\<lambda>xs. xs ! i"] i len
    show "get_github_trending_repositories_async w (urls ! i) = Inr (results ! i)"
      by simp
  qed
  show "\<forall>i<length urls. failed (respond w (urls ! i)) \<longrightarrow> results ! i = []"
  proof (intro allI impI)
    fix i assume i: "i < length urls" and "failed (respond w (urls ! i))"
    then have "get_github_trending_repositories_async w (urls ! i) = Inr []"
      by (simp add: retrieval_failure_empty)
    with own i show "results ! i = []" by simp
  qed
qed

text \<open>
  When no task raises, \<^verbatim>\<open>gather\<close> does return: running the tasks one after another ends
  with the list of their values, and no order of running them ends with anything else.
\<close>

lemma gather_without_exception:
  assumes "\<forall>url\<in>set urls. \<forall>e. get_github_trending_repositories_async w url \<noteq> Inl e"
  shows "gather w urls (one_by_one (length urls)) =
           Some (Inr (map (\<lambda>url. projr (get_github_trending_repositories_async w url)) urls))"
    and "gather w urls schedule = None \<or>
         gather w urls schedule =
           Some (Inr (map (\<lambda>url. projr (get_github_trending_repositories_async w url)) urls))"
proof -
  let ?get = "get_github_trending_repositories_async w"
  from assms have none: "first_error (map ?get urls) = None"
    by (simp add: first_error_None)
  then show "gather w urls (one_by_one (length urls)) = Some (Inr (map (\<lambda>url. projr (?get url)) urls))"
    by (simp add: gather_one_by_one)
  show "gather w urls schedule = None \<or>
        gather w urls schedule = Some (Inr (map (\<lambda>url. projr (?get url)) urls))"
  proof (cases "gather w urls schedule")
    case None
    then show ?thesis by simp
  next
    case (Some outcome)
    show ?thesis
    proof (cases outcome)
      case (Inl e)
      with Some have "\<exists>i<length urls. ?get (urls ! i) = Inl e"
        by (simp add: gather_raises)
      with assms show ?thesis by auto
    next
      case (Inr results)
      with Some have "map Inr results = map ?get urls"
        by (simp add: gather_returns)
      from arg_cong [OF this, of "map projr"]
      have "results = map (\<lambda>url. projr (?get url)) urls"
        by (simp add: o_def)
      with Some Inr show ?thesis by simp
    qed
  qed
qed

text \<open>When every retrieval fails, the list is one of empty lists, as long as the list of targets.\<close>

lemma all_failed_all_empty:
  assumes "\<forall>url\<in>set urls. failed (respond w url)"
  shows "gather w urls (one_by_one (length urls)) = Some (Inr (replicate (length urls) []))"
    and "gather w urls schedule = None \<or>
         gather w urls schedule = Some (Inr (replicate (length urls) []))"
proof -
  let ?get = "get_github_trending_repositories_async w"
  from assms have empty: "\<forall>url\<in>set urls. ?get url = Inr []"
    by (simp add: retrieval_failure_empty)
  then have no: "\<forall>url\<in>set urls. \<forall>e. ?get url \<noteq> Inl e"
    by simp
  from empty have "map (\<lambda>url. projr (?get url)) urls = replicate (length urls) []"
    by (induction urls) simp_all
  with gather_without_exception [OF no]
  show "gather w urls (one_by_one (length urls)) = Some (Inr (replicate (length urls) []))"
    and "gather w urls schedule = None \<or>
         gather w urls schedule = Some (Inr (replicate (length urls) []))"
    by simp_all
qed

lemma sample_cache_loaded:
  "load_list sample_fs ''./temp/lang_list.txt'' = Inr (Some [''python'', ''rust''])"
  by (simp add: load_list_def sample_fs_def path_exists_def resolve_def open_r_def readlines_def
        strip_def is_space_def)

lemma sample_urls:
  "make_urls ''weekly'' ''all'' [''python'', ''rust''] =
     [''https://github.com/trending?since=weekly'',
      ''https://github.com/trending/python?since=weekly'',
      ''https://github.com/trending/rust?since=weekly'']"
  by (simp add: make_urls_def)

lemma three_urls: "length [a, b, c :: string] = 3"
  by simp

lemma href_missing_fetches:
  "get_github_trending_repositories_async href_missing_world
     ''https://github.com/trending?since=weekly'' = Inr [sample_repo ''o/a'' 1]"
  "get_github_trending_repositories_async href_missing_world
     ''https://github.com/trending/python?since=weekly'' = Inr []"
  "get_github_trending_repositories_async href_missing_world
     ''https://github.com/trending/rust?since=weekly'' = Inl KeyError"
  by (simp_all add: get_github_trending_repositories_async_def parse_page_def
        href_missing_world_def sample_world_def)

text \<open>
  C1 fails on the code. The loop over the articles of a page catches \<^verbatim>\<open>AttributeError\<close>
  and \<^verbatim>\<open>ValueError\<close> and skips the article; the \<^verbatim>\<open>KeyError\<close> of
  \<^verbatim>\<open>repo_link_tag['href']\<close> (line 101), raised for an anchor without \<^verbatim>\<open>href\<close>, is not
  among them. The task of that page raises, \<^verbatim>\<open>asyncio.gather\<close> raises the exception again,
  and \<^verbatim>\<open>main\<close> ends with it: for these three targets there is no list of results, in
  whatever order the tasks run, although the two other pages were retrieved and parsed.
\<close>

theorem missing_href_ends_batch:
  "parse_article href_missing_world ''o/r'' = Inl KeyError \<and>
   is_AttributeError_or_ValueError KeyError = False \<and>
   get_github_trending_repositories_async href_missing_world
     ''https://github.com/trending?since=weekly'' = Inr [sample_repo ''o/a'' 1] \<and>
   get_github_trending_repositories_async href_missing_world
     ''https://github.com/trending/python?since=weekly'' = Inr [] \<and>
   get_github_trending_repositories_async href_missing_world
     ''https://github.com/trending/rust?since=weekly'' = Inl KeyError \<and>
   gather href_missing_world
     [''https://github.com/trending?since=weekly'',
      ''https://github.com/trending/python?since=weekly'',
      ''https://github.com/trending/rust?since=weekly''] (one_by_one 3) = Some (Inl KeyError) \<and>
   (\<forall>schedule.
      gather href_missing_world
        [''https://github.com/trending?since=weekly'',
         ''https://github.com/trending/python?since=weekly'',
         ''https://github.com/trending/rust?since=weekly''] schedule = None \<or>
      gather href_missing_world
        [''https://github.com/trending?since=weekly'',
         ''https://github.com/trending/python?since=weekly'',
         ''https://github.com/trending/rust?since=weekly''] schedule = Some (Inl KeyError)) \<and>
   gathering_main sample_codec href_missing_world sample_fs ''weekly'' ''all'' (one_by_one 3) =
     Some (Inl KeyError)"
proof -
  let ?w = href_missing_world
  let ?get = "get_github_trending_repositories_async ?w"
  let ?urls = "[''https://github.com/trending?since=weekly'',
      ''https://github.com/trending/python?since=weekly'',
      ''https://github.com/trending/rust?since=weekly'']"
  have article: "parse_article ?w ''o/r'' = Inl KeyError"
    by (simp add: href_missing_world_def)
  have outcomes: "map ?get ?urls = [Inr [sample_repo ''o/a'' 1], Inr [], Inl KeyError]"
    by (simp add: href_missing_fetches)
  have "gather ?w ?urls (one_by_one (length ?urls)) = Some (Inl KeyError)"
    by (simp only: gather_one_by_one outcomes) simp
  then have once: "gather ?w ?urls (one_by_one 3) = Some (Inl KeyError)"
    by (simp only: three_urls)
  have always: "gather ?w ?urls schedule = None \<or> gather ?w ?urls schedule = Some (Inl KeyError)"
    for schedule
  proof (cases "gather ?w ?urls schedule")
    case None
    then show ?thesis by simp
  next
    case (Some outcome)
    show ?thesis
    proof (cases outcome)
      case (Inl e)
      with Some have "\<exists>i<length ?urls. ?get (?urls ! i) = Inl e"
        by (simp only: gather_raises)
      then obtain i where "i < 3" and "map ?get ?urls ! i = Inl e"
        by (auto simp only: three_urls nth_map)
      then have "e = KeyError"
        by (auto simp only: outcomes less_Suc_eq numeral_3_eq_3 nth_Cons_0 nth_Cons_Suc
              One_nat_def less_zeroE)
      with Some Inl show ?thesis by simp
    next
      case (Inr results)
      with Some have "map Inr results = map ?get ?urls"
        by (simp only: gather_returns)
      with outcomes have "map Inr results = [Inr [sample_repo ''o/a'' 1], Inr [], Inl KeyError]"
        by (simp only:)
      then show ?thesis by auto
    qed
  qed
  have sel: "select_languages ?w sample_fs ''weekly'' ''all'' = Inr (Some [''python'', ''rust''])"
    by (simp add: select_languages_def sample_cache_loaded)
  have "gathering_main sample_codec ?w sample_fs ''weekly'' ''all'' (one_by_one 3) =
      Some (Inl KeyError)"
    by (simp only: gathering_main_def sel sample_urls once sum.case option.case)
  with article once always show ?thesis
    by (simp only: href_missing_fetches is_AttributeError_or_ValueError.simps simp_thms)
qed

section \<open>The facet list and the fetched pages\<close>

lemma sample_fetches:
  "get_github_trending_repositories_async sample_world ''https://github.com/trending?since=weekly'' =
     Inr [sample_repo ''o/a'' 1]"
  "get_github_trending_repositories_async sample_world
     ''https://github.com/trending/python?since=weekly'' = Inr []"
  "get_github_trending_repositories_async sample_world
     ''https://github.com/trending/rust?since=weekly'' = Inr [sample_repo ''o/r'' 1]"
  by (simp_all add: get_github_trending_repositories_async_def parse_page_def sample_world_def)

text \<open>
  The batch of the sample run returns the three lists of the three pages, in whatever order
  the tasks run.
\<close>

lemma sample_gather:
  "gather sample_world
     [''https://github.com/trending?since=weekly'',
      ''https://github.com/trending/python?since=weekly'',
      ''https://github.com/trending/rust?since=weekly''] (one_by_one 3) =
   Some (Inr [[sample_repo ''o/a'' 1], [], [sample_repo ''o/r'' 1]])"
  "gather sample_world
     [''https://github.com/trending?since=weekly'',
      ''https://github.com/trending/python?since=weekly'',
      ''https://github.com/trending/rust?since=weekly''] schedule = None \<or>
   gather sample_world
     [''https://github.com/trending?since=weekly'',
      ''https://github.com/trending/python?since=weekly'',
      ''https://github.com/trending/rust?since=weekly''] schedule =
   Some (Inr [[sample_repo ''o/a'' 1], [], [sample_repo ''o/r'' 1]])"
proof -
  let ?get = "get_github_trending_repositories_async sample_world"
  let ?urls = "[''https://github.com/trending?since=weekly'',
      ''https://github.com/trending/python?since=weekly'',
      ''https://github.com/trending/rust?since=weekly'']"
  have no: "\<forall>url\<in>set ?urls. \<forall>e. ?get url \<noteq> Inl e"
    by (simp add: sample_fetches)
  have page_values: "map (\<lambda>url. projr (?get url)) ?urls =
      [[sample_repo ''o/a'' 1], [], [sample_repo ''o/r'' 1]]"
    by (simp add: sample_fetches)
  from gather_without_exception(1) [OF no]
  have "gather sample_world ?urls (one_by_one (length ?urls)) =
      Some (Inr [[sample_repo ''o/a'' 1], [], [sample_repo ''o/r'' 1]])"
    by (simp only: page_values)
  then show "gather sample_world ?urls (one_by_one 3) =
      Some (Inr [[sample_repo ''o/a'' 1], [], [sample_repo ''o/r'' 1]])"
    by (simp only: three_urls)
  from gather_without_exception(2) [OF no, of schedule]
  show "gather sample_world ?urls schedule = None \<or>
      gather sample_world ?urls schedule =
      Some (Inr [[sample_repo ''o/a'' 1], [], [sample_repo ''o/r'' 1]])"
    by (simp only: page_values)
qed

lemma sample_run_aggregate:
  "aggregate ''weekly'' ''all'' [[sample_repo ''o/a'' 1], [], [sample_repo ''o/r'' 1]]
     [''python'', ''rust''] =
   ([(''o/a'', first_seen ''weekly'' ''all'' ''python'' (sample_repo ''o/a'' 1))], [''python''])"
proof -
  have "repository_name (sample_repo ''o/a'' 1) = ''o/a''"
    by (simp add: sample_repo_def)
  then show ?thesis
    by (simp add: aggregate_def aggregate_step_def add_repo_def dict_keys_def)
qed

text \<open>
  In the default run (\<^verbatim>\<open>daily\<close>, \<^verbatim>\<open>all\<close>) the list starts with \<^verbatim>\<open>'all'\<close>, whose URL is the
  unfiltered page, so URL \<open>i\<close> is the page of facet \<open>i\<close>.
\<close>

lemma default_run_aligned:
  assumes "trending_languages w = Inr scraped" and "''all'' \<notin> set scraped"
  shows "select_languages w fs ''daily'' ''all'' = Inr (Some (''all'' # scraped))"
    and "make_urls ''daily'' ''all'' (''all'' # scraped) =
           ''https://github.com/trending?since=daily'' #
           map (\<lambda>i. ''https://github.com/trending/'' @ i @ ''?since=daily'') scraped"
    and "length (make_urls ''daily'' ''all'' (''all'' # scraped)) = length (''all'' # scraped)"
proof -
  have "filter (\<lambda>i. i \<noteq> ''all'') ls = ls" if "''all'' \<notin> set ls" for ls :: "string list"
    using that by (induction ls) auto
  from this [OF assms(2)]
  have "filter (\<lambda>i. i \<noteq> ''all'') scraped = scraped" .
  then show "make_urls ''daily'' ''all'' (''all'' # scraped) =
           ''https://github.com/trending?since=daily'' #
           map (\<lambda>i. ''https://github.com/trending/'' @ i @ ''?since=daily'') scraped"
    by (simp add: make_urls_def)
  then show "length (make_urls ''daily'' ''all'' (''all'' # scraped)) = length (''all'' # scraped)"
    by simp
  from assms(1) show "select_languages w fs ''daily'' ''all'' = Inr (Some (''all'' # scraped))"
    by (simp add: select_languages_def)
qed

text \<open>
  C4 fails on the code. In a run that is not the default one the facet list comes from the
  cache, which never holds \<^verbatim>\<open>'all'\<close>, while the URL list still starts with the unfiltered
  page: with the cache \<^verbatim>\<open>python, rust\<close> there are three URLs for two facets, and
  \<^verbatim>\<open>zip\<close> pairs the unfiltered page with \<^verbatim>\<open>python\<close> and the Python page with
  \<^verbatim>\<open>rust\<close>; the Rust page is dropped. The list that \<^verbatim>\<open>gather\<close> returns is the same in
  whatever order the tasks run.
\<close>

theorem cached_run_misaligned:
  "select_languages sample_world sample_fs ''weekly'' ''all'' = Inr (Some [''python'', ''rust'']) \<and>
   make_urls ''weekly'' ''all'' [''python'', ''rust''] =
     [''https://github.com/trending?since=weekly'',
      ''https://github.com/trending/python?since=weekly'',
      ''https://github.com/trending/rust?since=weekly''] \<and>
   gather sample_world (make_urls ''weekly'' ''all'' [''python'', ''rust'']) (one_by_one 3) =
     Some (Inr [[sample_repo ''o/a'' 1], [], [sample_repo ''o/r'' 1]]) \<and>
   (\<forall>schedule.
      gather sample_world (make_urls ''weekly'' ''all'' [''python'', ''rust'']) schedule = None \<or>
      gather sample_world (make_urls ''weekly'' ''all'' [''python'', ''rust'']) schedule =
        Some (Inr [[sample_repo ''o/a'' 1], [], [sample_repo ''o/r'' 1]])) \<and>
   map_option (map_sum id (\<lambda>results. zip results [''python'', ''rust'']))
     (gather sample_world (make_urls ''weekly'' ''all'' [''python'', ''rust'']) (one_by_one 3)) =
     Some (Inr [([sample_repo ''o/a'' 1], ''python''), ([], ''rust'')]) \<and>
   get_github_trending_repositories_async sample_world
     ''https://github.com/trending?since=weekly'' = Inr [sample_repo ''o/a'' 1] \<and>
   get_github_trending_repositories_async sample_world
     ''https://github.com/trending/python?since=weekly'' = Inr [] \<and>
   get_github_trending_repositories_async sample_world
     ''https://github.com/trending/rust?since=weekly'' = Inr [sample_repo ''o/r'' 1]"
proof -
  have sel: "select_languages sample_world sample_fs ''weekly'' ''all'' =
      Inr (Some [''python'', ''rust''])"
    by (simp add: select_languages_def sample_cache_loaded)
  have paired: "map_option (map_sum id (\<lambda>results. zip results [''python'', ''rust'']))
      (Some (Inr [[sample_repo ''o/a'' 1], [], [sample_repo ''o/r'' 1]])) =
      Some (Inr [([sample_repo ''o/a'' 1], ''python''), ([], ''rust'')])"
    by simp
  from sel paired sample_gather(2) show ?thesis
    by (simp only: sample_urls sample_gather(1) sample_fetches simp_thms)
qed

text \<open>
  C10 fails on the code, by the same shift. In that run the Python page lists nothing and the
  Rust page lists one repository, yet the cache written at the end holds \<^verbatim>\<open>python\<close> and
  not \<^verbatim>\<open>rust\<close>: a facet is kept when the page paired with it, the one before its own, has
  a record. No order of running the tasks ends the run with another cache.
\<close>

theorem cached_run_cache:
  "get_github_trending_repositories_async sample_world
     ''https://github.com/trending/python?since=weekly'' = Inr [] \<and>
   get_github_trending_repositories_async sample_world
     ''https://github.com/trending/rust?since=weekly'' = Inr [sample_repo ''o/r'' 1] \<and>
   map_option (map_sum id (\<lambda>fs. files fs ''temp/lang_list.txt''))
     (gathering_main sample_codec sample_world sample_fs ''weekly'' ''all'' (one_by_one 3)) =
     Some (Inr (Some (''python'' @ [CHR 0x0A]))) \<and>
   (\<forall>schedule.
      gathering_main sample_codec sample_world sample_fs ''weekly'' ''all'' schedule = None \<or>
      map_option (map_sum id (\<lambda>fs. files fs ''temp/lang_list.txt''))
        (gathering_main sample_codec sample_world sample_fs ''weekly'' ''all'' schedule) =
        Some (Inr (Some (''python'' @ [CHR 0x0A]))))"
proof -
  let ?fs2 = "write_text sample_fs ''./temp/weekly-all.json'' ''json''"
  let ?fs3 = "write_text ?fs2 ''./temp/lang_list.txt'' (''python'' @ [CHR 0x0A])"
  let ?urls = "[''https://github.com/trending?since=weekly'',
      ''https://github.com/trending/python?since=weekly'',
      ''https://github.com/trending/rust?since=weekly'']"
  let ?results = "[[sample_repo ''o/a'' 1], [], [sample_repo ''o/r'' 1]]"
  have sel: "select_languages sample_world sample_fs ''weekly'' ''all'' =
      Inr (Some [''python'', ''rust''])"
    by (simp add: select_languages_def sample_cache_loaded)
  have ex: "path_exists sample_fs (dirname ''./temp/weekly-all.json'')"
    by (simp add: path_exists_def dirname_def resolve_def sample_fs_def)
  have sd: "save_dict sample_codec sample_fs ''./temp/weekly-all.json'' d = Inr ?fs2" for d
    by (simp add: save_dict_def open_w_def parent_exists_def dirname_def resolve_def
          sample_fs_def sample_codec_def)
  have sl: "save_list ?fs2 ''./temp/lang_list.txt'' [''python''] = (Inr True, ?fs3)"
    by (simp add: save_list_def open_w_def parent_exists_def dirname_def resolve_def
          sample_fs_def write_text_def)
  have saved: "aggregate_and_save sample_codec sample_fs ''weekly'' ''all'' [''python'', ''rust'']
      ?results = Inr ?fs3"
    by (simp add: aggregate_and_save_def sample_run_aggregate ex sd sl)
  have cache: "files ?fs3 ''temp/lang_list.txt'' = Some (''python'' @ [CHR 0x0A])"
    by (simp add: write_text_def resolve_def)
  have main: "gathering_main sample_codec sample_world sample_fs ''weekly'' ''all'' schedule =
      (case gather sample_world ?urls schedule of
         None \<Rightarrow> None
       | Some (Inl e) \<Rightarrow> Some (Inl e)
       | Some (Inr results) \<Rightarrow>
           Some (aggregate_and_save sample_codec sample_fs ''weekly'' ''all'' [''python'', ''rust'']
             results))"
    for schedule
    by (simp only: gathering_main_def sel sample_urls sum.case option.case)
  have once: "gathering_main sample_codec sample_world sample_fs ''weekly'' ''all'' (one_by_one 3) =
      Some (Inr ?fs3)"
    by (simp only: main sample_gather(1) saved sum.case option.case)
  have always: "gathering_main sample_codec sample_world sample_fs ''weekly'' ''all'' schedule = None \<or>
      gathering_main sample_codec sample_world sample_fs ''weekly'' ''all'' schedule =
      Some (Inr ?fs3)"
    for schedule
    using sample_gather(2) [of schedule]
  proof
    assume "gather sample_world ?urls schedule = None"
    then show ?thesis by (simp only: main option.case simp_thms)
  next
    assume "gather sample_world ?urls schedule = Some (Inr ?results)"
    then show ?thesis by (simp only: main saved sum.case option.case simp_thms)
  qed
  have 3: "map_option (map_sum id (\<lambda>fs. files fs ''temp/lang_list.txt''))
      (gathering_main sample_codec sample_world sample_fs ''weekly'' ''all'' (one_by_one 3)) =
      Some (Inr (Some (''python'' @ [CHR 0x0A])))"
    by (simp only: once option.map map_sum.simps cache)
  have 4: "gathering_main sample_codec sample_world sample_fs ''weekly'' ''all'' schedule = None \<or>
      map_option (map_sum id (\<lambda>fs. files fs ''temp/lang_list.txt''))
        (gathering_main sample_codec sample_world sample_fs ''weekly'' ''all'' schedule) =
        Some (Inr (Some (''python'' @ [CHR 0x0A])))"
    for schedule
    using always [of schedule]
  proof
    assume "gathering_main sample_codec sample_world sample_fs ''weekly'' ''all'' schedule = None"
    then show ?thesis by (rule disjI1)
  next
    assume "gathering_main sample_codec sample_world sample_fs ''weekly'' ''all'' schedule =
      Some (Inr ?fs3)"
    then have "map_option (map_sum id (\<lambda>fs. files fs ''temp/lang_list.txt''))
        (gathering_main sample_codec sample_world sample_fs ''weekly'' ''all'' schedule) =
        Some (Inr (Some (''python'' @ [CHR 0x0A])))"
      by (simp only: option.map map_sum.simps cache)
    then show ?thesis by (rule disjI2)
  qed
  from 3 4 show ?thesis
    by (simp only: sample_fetches simp_thms)
qed

lemma langs_of_aligned:
  "''all'' \<notin> set ls \<Longrightarrow>
   map snd [p\<leftarrow>zip (map g ls) ls. fst p \<noteq> [] \<and> snd p \<noteq> ''all''] = [i\<leftarrow>ls. g i \<noteq> []]"
  by (induction ls) auto

text \<open>
  In the default run the cache written is what C10 says: the facets other than \<^verbatim>\<open>'all'\<close>
  whose own page has a record, in the order of the facet list.
\<close>

lemma default_run_langs:
  assumes scraped: "trending_languages w = Inr scraped"
    and no_all: "''all'' \<notin> set scraped"
    and returned: "gather w (make_urls ''daily'' ''all'' (''all'' # scraped)) schedule =
                     Some (Inr results)"
  shows "snd (aggregate ''daily'' ''all'' results (''all'' # scraped)) =
         [i\<leftarrow>scraped.
            get_github_trending_repositories_async w
              (''https://github.com/trending/'' @ i @ ''?since=daily'') \<noteq> Inr []]"
proof -
  let ?get = "get_github_trending_repositories_async w"
  let ?page = "\<lambda>i. ''https://github.com/trending/'' @ i @ ''?since=daily''"
  from gather_returns [OF returned]
  have "map Inr results =
      ?get ''https://github.com/trending?since=daily'' # map (\<lambda>i. ?get (?page i)) scraped"
    by (simp add: default_run_aligned(2) [OF scraped no_all] o_def)
  then obtain r rs where results: "results = r # rs"
    and rs: "map Inr rs = map (\<lambda>i. ?get (?page i)) scraped"
    by (cases results) auto
  from arg_cong [OF rs, of "map projr"]
  have page_values: "rs = map (\<lambda>i. projr (?get (?page i))) scraped"
    by (simp add: o_def)
  have own: "?get (?page i) = Inr (projr (?get (?page i)))" if "i \<in> set scraped" for i
  proof -
    from that obtain k where k: "k < length scraped" "scraped ! k = i"
      by (auto simp: in_set_conv_nth)
    from arg_cong [OF rs, of "\<lambda>xs. xs ! k"] arg_cong [OF rs, of length] k
    have "?get (?page i) = Inr (rs ! k)" by simp
    then show ?thesis by simp
  qed
  have "[i\<leftarrow>scraped. projr (?get (?page i)) \<noteq> []] = [i\<leftarrow>scraped. ?get (?page i) \<noteq> Inr []]"
  proof (rule filter_cong [OF refl])
    fix i assume "i \<in> set scraped"
    from own [OF this] show "(projr (?get (?page i)) \<noteq> []) = (?get (?page i) \<noteq> Inr [])"
      by (metis sum.inject(2))
  qed
  with langs_of_aligned [OF no_all, of "\<lambda>i. projr (?get (?page i))"] show ?thesis
    by (simp add: snd_aggregate results page_values)
qed

section \<open>The permit of one task\<close>





section \<open>Loading and saving\<close>

lemma open_w_IOError: "open_w fs p = Some e \<Longrightarrow> is_IOError e"
  by (auto simp: open_w_def split: if_splits)

lemma open_r_IOError: "open_r fs p = Inl e \<Longrightarrow> is_IOError e"
  by (auto simp: open_r_def split: if_splits option.splits)

text \<open>
  C9, as amended. The two operations on the cached facet list answer a file that cannot be
  opened with a value: \<^verbatim>\<open>save_list\<close> returns \<^verbatim>\<open>False\<close> and writes nothing,
  \<^verbatim>\<open>load_list\<close> returns \<^verbatim>\<open>None\<close>, also when the file does not exist; neither raises. The
  two operations on the JSON files, \<^verbatim>\<open>save_dict\<close> and \<^verbatim>\<open>load_dict\<close>, have no handler:
  the exception of \<^verbatim>\<open>open\<close> leaves them as it is.
\<close>

theorem list_files_answer_with_a_value:
  "(open_w fs p = None \<longrightarrow>
      save_list fs p items =
        (Inr True, write_text fs p (concat (map (\<lambda>item. item @ [CHR 0x0A]) items)))) \<and>
   (open_w fs p \<noteq> None \<longrightarrow> save_list fs p items = (Inr False, fs)) \<and>
   (\<not> path_exists fs p \<longrightarrow> load_list fs p = Inr None) \<and>
   (\<forall>e. open_r fs p = Inl e \<longrightarrow> load_list fs p = Inr None) \<and>
   (\<forall>t. open_r fs p = Inr t \<longrightarrow> load_list fs p = Inr (Some (map strip (readlines t)))) \<and>
   (\<forall>e. open_w fs p = Some e \<longrightarrow> save_dict J fs p data = Inl e) \<and>
   (\<forall>e. open_r fs p = Inl e \<longrightarrow> load_dict J fs p = Inl e)"
proof (intro conjI allI impI)
  assume "open_w fs p = None"
  then show "save_list fs p items =
        (Inr True, write_text fs p (concat (map (\<lambda>item. item @ [CHR 0x0A]) items)))"
    by (simp add: save_list_def)
next
  assume "open_w fs p \<noteq> None"
  then obtain e where e: "open_w fs p = Some e" by auto
  then have "is_IOError e" by (rule open_w_IOError)
  with e show "save_list fs p items = (Inr False, fs)"
    by (simp add: save_list_def)
next
  assume "\<not> path_exists fs p"
  then show "load_list fs p = Inr None" by (simp add: load_list_def)
next
  fix e assume e: "open_r fs p = Inl e"
  then have "is_IOError e" by (rule open_r_IOError)
  with e show "load_list fs p = Inr None" by (simp add: load_list_def)
next
  fix t assume t: "open_r fs p = Inr t"
  then have "path_exists fs p"
    by (auto simp: open_r_def path_exists_def split: if_splits option.splits)
  with t show "load_list fs p = Inr (Some (map strip (readlines t)))"
    by (simp add: load_list_def)
next
  fix e assume "open_w fs p = Some e"
  then show "save_dict J fs p data = Inl e" by (simp add: save_dict_def)
next
  fix e assume "open_r fs p = Inl e"
  then show "load_dict J fs p = Inl e" by (simp add: load_dict_def)
qed

lemma locked_fs_opens:
  "open_w locked_fs ''./temp/lang_list.txt'' = Some PermissionError"
  "open_r locked_fs ''./temp/lang_list.txt'' = Inl PermissionError"
  "open_w locked_fs ''./temp/weekly-all.json'' = Some PermissionError"
  "open_r locked_fs ''temp/daily-all.json'' = Inl FileNotFoundError"
  by (simp_all add: open_w_def open_r_def parent_exists_def dirname_def resolve_def
        locked_fs_def sample_fs_def)

theorem list_files_answer_with_a_value_witness:
  "save_list locked_fs ''./temp/lang_list.txt'' [''python''] = (Inr False, locked_fs) \<and>
   load_list locked_fs ''./temp/lang_list.txt'' = Inr None \<and>
   load_list sample_fs ''./temp/lang_list.txt'' = Inr (Some [''python'', ''rust'']) \<and>
   save_dict sample_codec locked_fs ''./temp/lang_list.txt'' [] = Inl PermissionError \<and>
   load_dict sample_codec locked_fs ''./temp/lang_list.txt'' = Inl PermissionError"
proof -
  note locked = list_files_answer_with_a_value
    [where fs = locked_fs and p = "''./temp/lang_list.txt''" and items = "[''python'']"
       and J = sample_codec and data = "[]"]
  note plain = list_files_answer_with_a_value
    [where fs = sample_fs and p = "''./temp/lang_list.txt''"]
  have r: "open_r sample_fs ''./temp/lang_list.txt'' =
      Inr (''python'' @ [CHR 0x0A] @ ''rust'' @ [CHR 0x0A])"
    by (simp add: open_r_def resolve_def sample_fs_def)
  have l: "map strip (readlines (''python'' @ [CHR 0x0A] @ ''rust'' @ [CHR 0x0A])) =
      [''python'', ''rust'']"
    by (simp add: readlines_def strip_def is_space_def)
  from locked locked_fs_opens(1)
  have 1: "save_list locked_fs ''./temp/lang_list.txt'' [''python''] = (Inr False, locked_fs)"
    by simp
  from locked locked_fs_opens(2)
  have 2: "load_list locked_fs ''./temp/lang_list.txt'' = Inr None"
    by simp
  from plain r
  have "load_list sample_fs ''./temp/lang_list.txt'' =
      Inr (Some (map strip (readlines (''python'' @ [CHR 0x0A] @ ''rust'' @ [CHR 0x0A]))))"
    by blast
  then have 3: "load_list sample_fs ''./temp/lang_list.txt'' = Inr (Some [''python'', ''rust''])"
    by (simp only: l)
  from locked locked_fs_opens(1)
  have 4: "save_dict sample_codec locked_fs ''./temp/lang_list.txt'' [] = Inl PermissionError"
    by simp
  from locked locked_fs_opens(2)
  have 5: "load_dict sample_codec locked_fs ''./temp/lang_list.txt'' = Inl PermissionError"
    by simp
  from 1 2 3 4 5 show ?thesis by simp
qed

text \<open>
  C9 as stated fails for the JSON files: writing a per-run snapshot that cannot be opened
  raises, and so does reading one that does not exist.
\<close>

theorem json_files_raise_counterexample:
  "save_dict sample_codec locked_fs ''./temp/weekly-all.json'' [sample_entry] =
     Inl PermissionError \<and>
   load_dict sample_codec locked_fs ''temp/daily-all.json'' = Inl FileNotFoundError"
  by (simp add: save_dict_def load_dict_def locked_fs_opens)

section \<open>The merge pass\<close>













end
